theory Spec2Isabelle
  imports Main "HOL-Library.Multiset" "HOL-Library.Char_ord" "HOL-Library.List_Lexorder"
begin

section \<open>The ICPC scoreboard of \<open>src/main.cpp\<close>\<close>

text \<open>
  The program keeps one \<open>ICPCSystem\<close> object and applies to it the commands read from
  standard input, one after the other. The embedding below follows the source function
  by function. Conventions:
  \<^item> C++ \<open>int\<close> is the 32-bit two's-complement integer, modelled by \<open>int\<close> with the
    wrap-around written out: a time or a duration that the program reads satisfies
    \<open>int32\<close> (\<open>receivable\<close>), and the product and the sums that compute a penalty are
    wrapped by \<open>wrap32\<close>, so that a penalty satisfies \<open>int32\<close> in every reachable state
    (lemma \<open>reachable_penalty_int32\<close>). (Signed overflow is
    undefined behaviour in C++; the wrap-around is what the compiled program does.)
    Negative times are ordinary inputs of the model, as they are of the program
    (\<open>iss >> time\<close>). The counters that a command advances by one (\<open>solved_problems\<close>, a
    wrong-submission count, the \<open>ranking\<close> of \<open>query_ranking\<close>) are not wrapped: each
    step stores a submission in memory, and no execution stores \<open>2 ^ 31\<close> of them.
  \<^item> \<open>std::string\<close> is \<open>string\<close>; \<open>operator<\<close> on \<open>std::string\<close> is the lexicographic
    order on bytes, which is the order of \<open>HOL-Library.List_Lexorder\<close> over
    \<open>HOL-Library.Char_ord\<close>.
  \<^item> \<open>std::map\<close> is a partial function; \<open>std::vector\<close> is a list.
  \<^item> every \<open>cout << ...\<close> statement is one value of type \<open>message\<close>; a member function
    of the class returns the messages it prints, in order, and the new state. A message
    holds the values that the statement prints; \<open>render\<close> gives its text, character by
    character, and \<open>output_text\<close> the text of a list of messages.
  \<^item> the parsing of a command line in \<open>main\<close> is not modelled: a command arrives with its
    arguments.
\<close>

subsection \<open>Data\<close>

record Submission =
  team_name :: string
  problem_name :: string
  status :: string
  time :: int

record Team =
  name :: string
  solved_problems :: int
  penalty_time :: int
  wrong_submissions :: "string \<rightharpoonup> int"
  first_ac_time :: "string \<rightharpoonup> int"
  solve_times :: "int list"
  submissions :: "Submission list"

record ICPCSystem =
  duration_time :: int
  is_frozen :: bool
  teams :: "string \<rightharpoonup> Team"
  team_order :: "string list"
  all_submissions :: "Submission list"

text \<open>
  What the program prints. Each constructor is one output statement of the source, shown
  here without the terminator that \<open>render\<close> below adds:
  \<^item> \<open>Info_Competition_Starts\<close>: \<^verbatim>\<open>[Info]Competition starts.\<close>
  \<^item> \<open>Error_Add_Duplicated\<close>: \<^verbatim>\<open>[Error]Add failed: duplicated team name.\<close>
  \<^item> \<open>Info_Add\<close>: \<^verbatim>\<open>[Info]Add successfully.\<close>
  \<^item> \<open>Error_Submit_No_Team\<close>: \<^verbatim>\<open>[Error]Submit failed: cannot find the team.\<close>
  \<^item> \<open>Info_Submit\<close>: \<^verbatim>\<open>[Info]Submit successfully.\<close>
  \<^item> \<open>Info_Flush\<close>: \<^verbatim>\<open>[Info]Flush scoreboard.\<close>
  \<^item> \<open>Error_Freeze_Frozen\<close>: \<^verbatim>\<open>[Error]Freeze failed: scoreboard has been frozen.\<close>
  \<^item> \<open>Info_Freeze\<close>: \<^verbatim>\<open>[Info]Freeze scoreboard.\<close>
  \<^item> \<open>Error_Scroll_Not_Frozen\<close>: \<^verbatim>\<open>[Error]Scroll failed: scoreboard has not been frozen.\<close>
  \<^item> \<open>Info_Scroll\<close>: \<^verbatim>\<open>[Info]Scroll scoreboard.\<close>
  \<^item> \<open>Scoreboard_Row n r s p\<close>: the row \<open>n r s p\<close> of the scoreboard (team name, rank,
    solved problems, penalty time)
  \<^item> \<open>Error_Query_Ranking_No_Team\<close>: \<^verbatim>\<open>[Error]Query ranking failed: cannot find the team.\<close>
  \<^item> \<open>Warning_Frozen\<close>: \<^verbatim>\<open>[Warning]Scoreboard is frozen. The ranking may be inaccurate
    until it were scrolled.\<close>
  \<^item> \<open>Now_At_Ranking n r\<close>: \<^verbatim>\<open>[n] NOW AT RANKING r\<close>
  \<^item> \<open>Error_Query_Submission_No_Team\<close>: \<^verbatim>\<open>[Error]Query submission failed: cannot find
    the team.\<close>
  \<^item> \<open>Info_Complete_Query_Submission\<close>: \<^verbatim>\<open>[Info]Complete query submission.\<close>
  \<^item> \<open>Submission_Row t p s m\<close>: the submission \<open>t p s m\<close> (team, problem, status, time)
  \<^item> \<open>Cannot_Find_Submission\<close>: \<^verbatim>\<open>Cannot find any submission.\<close>
  \<^item> \<open>Info_Competition_Ends\<close>: \<^verbatim>\<open>[Info]Competition ends.\<close>
\<close>

datatype message =
    Info_Competition_Starts
  | Error_Add_Duplicated
  | Info_Add
  | Error_Submit_No_Team
  | Info_Submit
  | Info_Flush
  | Error_Freeze_Frozen
  | Info_Freeze
  | Error_Scroll_Not_Frozen
  | Info_Scroll
  | Scoreboard_Row string nat int int
  | Error_Query_Ranking_No_Team
  | Warning_Frozen
  | Now_At_Ranking string int
  | Error_Query_Submission_No_Team
  | Info_Complete_Query_Submission
  | Submission_Row string string string int
  | Cannot_Find_Submission
  | Info_Competition_Ends

subsection \<open>The text of the output\<close>

text \<open>
  The text of a message: the characters that its output statement writes. \<open>show_nat\<close> and
  \<open>show_int\<close> are \<open>operator<<\<close> on \<open>size_t\<close> and on \<open>int\<close>, in decimal. Every statement of
  the source ends with \<^verbatim>\<open>"\\n"\<close>, an escaped backslash followed by the letter n: the
  \<open>terminator\<close> of a message is these two characters, and not the line feed.
\<close>

definition digit :: "nat \<Rightarrow> char" where
  "digit n = ''0123456789'' ! (n mod 10)"

function show_nat :: "nat \<Rightarrow> string" where
  "show_nat n = (if n < 10 then [digit n] else show_nat (n div 10) @ [digit (n mod 10)])"
  by pat_completeness auto
termination
  by (relation "measure (\<lambda>n. n)") auto

declare show_nat.simps [simp del]

definition show_int :: "int \<Rightarrow> string" where
  "show_int i = (if i < 0 then CHR ''-'' # show_nat (nat (- i)) else show_nat (nat i))"

definition terminator :: string where
  "terminator = [CHR 0x5C, CHR ''n'']"

fun render :: "message \<Rightarrow> string" where
  "render Info_Competition_Starts = ''[Info]Competition starts.'' @ terminator"
| "render Error_Add_Duplicated = ''[Error]Add failed: duplicated team name.'' @ terminator"
| "render Info_Add = ''[Info]Add successfully.'' @ terminator"
| "render Error_Submit_No_Team = ''[Error]Submit failed: cannot find the team.'' @ terminator"
| "render Info_Submit = ''[Info]Submit successfully.'' @ terminator"
| "render Info_Flush = ''[Info]Flush scoreboard.'' @ terminator"
| "render Error_Freeze_Frozen =
     ''[Error]Freeze failed: scoreboard has been frozen.'' @ terminator"
| "render Info_Freeze = ''[Info]Freeze scoreboard.'' @ terminator"
| "render Error_Scroll_Not_Frozen =
     ''[Error]Scroll failed: scoreboard has not been frozen.'' @ terminator"
| "render Info_Scroll = ''[Info]Scroll scoreboard.'' @ terminator"
| "render (Scoreboard_Row n r sv p) =
     n @ '' '' @ show_nat r @ '' '' @ show_int sv @ '' '' @ show_int p @ terminator"
| "render Error_Query_Ranking_No_Team =
     ''[Error]Query ranking failed: cannot find the team.'' @ terminator"
| "render Warning_Frozen =
     ''[Warning]Scoreboard is frozen. The ranking may be inaccurate until it were scrolled.''
       @ terminator"
| "render (Now_At_Ranking n r) = ''['' @ n @ ''] NOW AT RANKING '' @ show_int r @ terminator"
| "render Error_Query_Submission_No_Team =
     ''[Error]Query submission failed: cannot find the team.'' @ terminator"
| "render Info_Complete_Query_Submission = ''[Info]Complete query submission.'' @ terminator"
| "render (Submission_Row t p s m) =
     t @ '' '' @ p @ '' '' @ s @ '' '' @ show_int m @ terminator"
| "render Cannot_Find_Submission = ''Cannot find any submission.'' @ terminator"
| "render Info_Competition_Ends = ''[Info]Competition ends.'' @ terminator"

text \<open>The text that a list of messages puts on standard output.\<close>

definition output_text :: "message list \<Rightarrow> string" where
  "output_text ms = concat (map render ms)"

subsection \<open>Machine integers and default values\<close>

text \<open>The values of a C++ \<open>int\<close>, and the value that 32-bit arithmetic gives to a result.\<close>

definition int32 :: "int \<Rightarrow> bool" where
  "int32 x \<longleftrightarrow> - (2 ^ 31) \<le> x \<and> x < 2 ^ 31"

definition wrap32 :: "int \<Rightarrow> int" where
  "wrap32 x = (x + 2 ^ 31) mod 2 ^ 32 - 2 ^ 31"

text \<open>A default-constructed \<open>Team\<close>: the member initialisers of the struct.\<close>

definition default_team :: Team where
  "default_team =
     \<lparr>name = [], solved_problems = 0, penalty_time = 0, wrong_submissions = Map.empty,
      first_ac_time = Map.empty, solve_times = [], submissions = []\<rparr>"

text \<open>
  \<open>m[k]\<close> on a \<open>std::map<string, int>\<close> read as a value: the stored count, or the
  value-initialised \<open>0\<close> that \<open>operator[]\<close> inserts for a missing key.
\<close>

definition count_at :: "(string \<rightharpoonup> int) \<Rightarrow> string \<Rightarrow> int" where
  "count_at m k = (case m k of None \<Rightarrow> 0 | Some c \<Rightarrow> c)"

text \<open>
  \<open>teams[k]\<close> read as a value: the stored team, or a default-constructed one. For a
  missing key \<open>operator[]\<close> would also insert that default team; \<open>compare_teams\<close> and
  \<open>scroll\<close> only apply it to names of \<open>team_order\<close>, and lemma \<open>order_registered\<close> below
  shows that those are keys of \<open>teams\<close> in every reachable state, so nothing is inserted.
\<close>

definition team_at :: "(string \<rightharpoonup> Team) \<Rightarrow> string \<Rightarrow> Team" where
  "team_at m k = (case m k of None \<Rightarrow> default_team | Some t \<Rightarrow> t)"

subsection \<open>Sorting\<close>

text \<open>
  \<open>sort(v.rbegin(), v.rend())\<close> sorts the reversed view of the vector in ascending
  order: the vector itself ends in descending order.
\<close>

definition sort_reversed :: "int list \<Rightarrow> int list" where
  "sort_reversed v = rev (sort (rev v))"

text \<open>
  \<open>std::sort\<close> with a comparator. The standard fixes the result only as a permutation
  of the input that is sorted for the comparator; the model is insertion sort, and lemma
  \<open>std_sort_unique\<close> below shows that for a strict total order there is no other such
  permutation.
\<close>

fun insert_by :: "('a \<Rightarrow> 'a \<Rightarrow> bool) \<Rightarrow> 'a \<Rightarrow> 'a list \<Rightarrow> 'a list" where
  "insert_by lt x [] = [x]"
| "insert_by lt x (y # ys) = (if lt x y then x # y # ys else y # insert_by lt x ys)"

definition std_sort :: "('a \<Rightarrow> 'a \<Rightarrow> bool) \<Rightarrow> 'a list \<Rightarrow> 'a list" where
  "std_sort lt xs = foldr (insert_by lt) xs []"

subsection \<open>The private member functions\<close>

definition update_team_stats :: "Team \<Rightarrow> Submission \<Rightarrow> Team" where
  "update_team_stats team sub =
     (let team1 = team\<lparr>submissions := submissions team @ [sub]\<rparr> in
      if status sub = ''Accepted'' then
        (if first_ac_time team1 (problem_name sub) = None then
           (let wrong_count = count_at (wrong_submissions team1) (problem_name sub);
                problem_penalty = wrap32 (wrap32 (20 * wrong_count) + time sub)
            in team1
                 \<lparr>first_ac_time := (first_ac_time team1)(problem_name sub \<mapsto> time sub),
                  wrong_submissions := (wrong_submissions team1)(problem_name sub \<mapsto> wrong_count),
                  penalty_time := wrap32 (penalty_time team1 + problem_penalty),
                  solved_problems := solved_problems team1 + 1,
                  solve_times := sort_reversed (solve_times team1 @ [time sub])\<rparr>)
         else team1)
      else
        team1\<lparr>wrong_submissions :=
                 (wrong_submissions team1)
                   (problem_name sub \<mapsto> count_at (wrong_submissions team1) (problem_name sub) + 1)\<rparr>)"

text \<open>
  The loop of \<open>compare_teams\<close> over the common indices of the two vectors: \<open>Some r\<close> when
  it returns \<open>r\<close> at the first index where the vectors differ, \<open>None\<close> when it runs to
  the end of the shorter vector.
\<close>

fun compare_solve_times :: "int list \<Rightarrow> int list \<Rightarrow> bool option" where
  "compare_solve_times (x # xs) (y # ys) =
     (if x \<noteq> y then Some (x < y) else compare_solve_times xs ys)"
| "compare_solve_times _ _ = None"

definition compare_teams :: "ICPCSystem \<Rightarrow> string \<Rightarrow> string \<Rightarrow> bool" where
  "compare_teams s a b =
     (let teamA = team_at (teams s) a; teamB = team_at (teams s) b in
      if solved_problems teamA \<noteq> solved_problems teamB then
        solved_problems teamA > solved_problems teamB
      else if penalty_time teamA \<noteq> penalty_time teamB then
        penalty_time teamA < penalty_time teamB
      else (case compare_solve_times (solve_times teamA) (solve_times teamB) of
              Some r \<Rightarrow> r
            | None \<Rightarrow> a < b))"

definition update_scoreboard :: "ICPCSystem \<Rightarrow> ICPCSystem" where
  "update_scoreboard s = s\<lparr>team_order := std_sort (compare_teams s) (team_order s)\<rparr>"

subsection \<open>The public member functions\<close>

definition start :: "int \<Rightarrow> ICPCSystem \<Rightarrow> message list \<times> ICPCSystem" where
  "start duration s = ([Info_Competition_Starts], s\<lparr>duration_time := duration\<rparr>)"

definition add_team :: "string \<Rightarrow> ICPCSystem \<Rightarrow> message list \<times> ICPCSystem" where
  "add_team tn s =
     (if teams s tn \<noteq> None then ([Error_Add_Duplicated], s)
      else ([Info_Add],
            s\<lparr>teams := (teams s)(tn \<mapsto> default_team\<lparr>name := tn\<rparr>),
              team_order := team_order s @ [tn]\<rparr>))"

definition submit :: "string \<Rightarrow> string \<Rightarrow> string \<Rightarrow> int \<Rightarrow> ICPCSystem \<Rightarrow> message list \<times> ICPCSystem" where
  "submit tn pn st tm s =
     (case teams s tn of
        None \<Rightarrow> ([Error_Submit_No_Team], s)
      | Some team \<Rightarrow>
          (let sub = \<lparr>team_name = tn, problem_name = pn, status = st, time = tm\<rparr> in
           ([Info_Submit],
            s\<lparr>all_submissions := all_submissions s @ [sub],
              teams := (teams s)(tn \<mapsto> update_team_stats team sub)\<rparr>)))"

definition flush_scoreboard :: "ICPCSystem \<Rightarrow> message list \<times> ICPCSystem" where
  "flush_scoreboard s = ([Info_Flush], update_scoreboard s)"

definition freeze :: "ICPCSystem \<Rightarrow> message list \<times> ICPCSystem" where
  "freeze s =
     (if is_frozen s then ([Error_Freeze_Frozen], s)
      else ([Info_Freeze], s\<lparr>is_frozen := True\<rparr>))"

text \<open>
  The printing loop of \<open>scroll\<close>, from index \<open>i\<close> on: \<open>order\<close> is the rest of
  \<open>team_order\<close>. The text of a row is \<open>render\<close> of its message: the four values separated
  by spaces, followed by the terminator.
\<close>

fun print_scoreboard :: "(string \<rightharpoonup> Team) \<Rightarrow> string list \<Rightarrow> nat \<Rightarrow> message list" where
  "print_scoreboard m [] i = []"
| "print_scoreboard m (tn # order) i =
     (let team = team_at m tn in
      Scoreboard_Row (name team) (i + 1) (solved_problems team) (penalty_time team)
        # print_scoreboard m order (i + 1))"

definition scroll :: "ICPCSystem \<Rightarrow> message list \<times> ICPCSystem" where
  "scroll s =
     (if \<not> is_frozen s then ([Error_Scroll_Not_Frozen], s)
      else (let s1 = update_scoreboard (s\<lparr>is_frozen := False\<rparr>) in
            (Info_Scroll # print_scoreboard (teams s1) (team_order s1) 0, s1)))"

text \<open>
  The loop of \<open>query_ranking\<close>: \<open>ranking\<close> is the loop's counter, \<open>order\<close> the rest of
  \<open>team_order\<close>. The loop prints nothing when it does not find the name.
\<close>

fun find_ranking :: "string list \<Rightarrow> string \<Rightarrow> int \<Rightarrow> message list" where
  "find_ranking [] tn ranking = []"
| "find_ranking (team # order) tn ranking =
     (if team = tn then [Now_At_Ranking tn ranking]
      else find_ranking order tn (ranking + 1))"

definition query_ranking :: "string \<Rightarrow> ICPCSystem \<Rightarrow> message list \<times> ICPCSystem" where
  "query_ranking tn s =
     (if teams s tn = None then ([Error_Query_Ranking_No_Team], s)
      else ((if is_frozen s then [Warning_Frozen] else []) @ find_ranking (team_order s) tn 1, s))"

text \<open>
  The loop of \<open>query_submission\<close>, over the reversed vector (\<open>rbegin\<close> to \<open>rend\<close>).
\<close>

fun find_submission :: "Submission list \<Rightarrow> string \<Rightarrow> string \<Rightarrow> message" where
  "find_submission [] pn st = Cannot_Find_Submission"
| "find_submission (sub # rest) pn st =
     (let problem_match = (pn = ''ALL'' \<or> problem_name sub = pn);
          status_match = (st = ''ALL'' \<or> status sub = st)
      in if problem_match \<and> status_match
         then Submission_Row (team_name sub) (problem_name sub) (status sub) (time sub)
         else find_submission rest pn st)"

definition query_submission :: "string \<Rightarrow> string \<Rightarrow> string \<Rightarrow> ICPCSystem \<Rightarrow> message list \<times> ICPCSystem" where
  "query_submission tn pn st s =
     (if teams s tn = None then ([Error_Query_Submission_No_Team], s)
      else ([Info_Complete_Query_Submission,
             find_submission (rev (submissions (team_at (teams s) tn))) pn st], s))"

definition end_competition :: "ICPCSystem \<Rightarrow> message list \<times> ICPCSystem" where
  "end_competition s = ([Info_Competition_Ends], s)"

subsection \<open>The command loop of \<open>main\<close>\<close>

text \<open>The commands of the input, after parsing.\<close>

datatype command =
    START int
  | ADD_TEAM string
  | SUBMIT string string string int
  | FLUSH
  | FREEZE
  | SCROLL
  | QUERY_RANKING string
  | QUERY_SUBMISSION string string string
  | END

text \<open>
  The commands that \<open>main\<close> can pass on: it reads a duration and a time into an \<open>int\<close>.
\<close>

fun receivable :: "command \<Rightarrow> bool" where
  "receivable (START d) = int32 d"
| "receivable (SUBMIT tn pn st tm) = int32 tm"
| "receivable _ = True"

fun exec :: "command \<Rightarrow> ICPCSystem \<Rightarrow> message list \<times> ICPCSystem" where
  "exec (START d) s = start d s"
| "exec (ADD_TEAM tn) s = add_team tn s"
| "exec (SUBMIT tn pn st tm) s = submit tn pn st tm s"
| "exec FLUSH s = flush_scoreboard s"
| "exec FREEZE s = freeze s"
| "exec SCROLL s = scroll s"
| "exec (QUERY_RANKING tn) s = query_ranking tn s"
| "exec (QUERY_SUBMISSION tn pn st) s = query_submission tn pn st s"
| "exec END s = end_competition s"

text \<open>The loop of \<open>main\<close>: it stops after \<open>END\<close>, or at the end of the input.\<close>

fun run :: "command list \<Rightarrow> ICPCSystem \<Rightarrow> message list \<times> ICPCSystem" where
  "run [] s = ([], s)"
| "run (c # cs) s =
     (let (out, s1) = exec c s in
      if c = END then (out, s1)
      else (let (outs, s2) = run cs s1 in (out @ outs, s2)))"

text \<open>
  The object \<open>system\<close> of \<open>main\<close> before the first command. \<open>duration_time\<close> has no
  initialiser: \<open>d\<close> is its indeterminate value.
\<close>

definition initial :: "int \<Rightarrow> ICPCSystem" where
  "initial d =
     \<lparr>duration_time = d, is_frozen = False, teams = Map.empty, team_order = [],
      all_submissions = []\<rparr>"

text \<open>The states the command loop can be in.\<close>

inductive reachable :: "ICPCSystem \<Rightarrow> bool" where
  reachable_initial: "reachable (initial d)"
| reachable_exec: "reachable s \<Longrightarrow> reachable (snd (exec c s))"

section \<open>Notions used in the properties\<close>

text \<open>A vector of solve times in descending order.\<close>

definition descending :: "int list \<Rightarrow> bool" where
  "descending xs = sorted_wrt (\<lambda>x y. x \<ge> y) xs"

text \<open>A submission for problem \<open>pn\<close> with outcome "Accepted", and one with any other outcome.\<close>

definition accepted_for :: "string \<Rightarrow> Submission \<Rightarrow> bool" where
  "accepted_for pn x \<longleftrightarrow> problem_name x = pn \<and> status x = ''Accepted''"

definition rejected_for :: "string \<Rightarrow> Submission \<Rightarrow> bool" where
  "rejected_for pn x \<longleftrightarrow> problem_name x = pn \<and> status x \<noteq> ''Accepted''"

text \<open>
  The invariant of a team's ledger: the solved count is the number of first-acceptance
  times and the number of solve times, the solve times are in descending order, a problem
  has a first-acceptance time exactly when the team's history holds an accepted
  submission for it, and the wrong-submission counter of a problem is the number of
  rejected submissions for it in the history.
\<close>

definition ledger_inv :: "Team \<Rightarrow> bool" where
  "ledger_inv t \<longleftrightarrow>
     finite (dom (first_ac_time t)) \<and>
     solved_problems t = int (card (dom (first_ac_time t))) \<and>
     solved_problems t = int (length (solve_times t)) \<and>
     descending (solve_times t) \<and>
     (\<forall>pn. first_ac_time t pn = None \<longleftrightarrow> (\<forall>x \<in> set (submissions t). \<not> accepted_for pn x)) \<and>
     (\<forall>pn. count_at (wrong_submissions t) pn =
             int (length (filter (rejected_for pn) (submissions t))))"

text \<open>
  The invariant of the system: every registered team is stored under its own name with a
  ledger that satisfies \<open>ledger_inv\<close>, and \<open>team_order\<close> lists the registered names, each
  once.
\<close>

definition system_inv :: "ICPCSystem \<Rightarrow> bool" where
  "system_inv s \<longleftrightarrow>
     (\<forall>tn t. teams s tn = Some t \<longrightarrow> name t = tn \<and> ledger_inv t) \<and>
     set (team_order s) = dom (teams s) \<and>
     distinct (team_order s)"

text \<open>
  The histories: every submission of the global log is by a registered team, and the
  history of a team is the global log restricted to that team, in the order of receipt.
\<close>

definition history_inv :: "ICPCSystem \<Rightarrow> bool" where
  "history_inv s \<longleftrightarrow>
     (\<forall>x \<in> set (all_submissions s). teams s (team_name x) \<noteq> None) \<and>
     (\<forall>tn t. teams s tn = Some t \<longrightarrow>
        submissions t = filter (\<lambda>x. team_name x = tn) (all_submissions s))"

text \<open>Two states of a run, used as concrete instances.\<close>

definition example_one_wrong :: ICPCSystem where
  "example_one_wrong =
     snd (run [ADD_TEAM ''A'', SUBMIT ''A'' ''p1'' ''Wrong_Answer'' 5] (initial 0))"

definition example_solved :: ICPCSystem where
  "example_solved =
     snd (run [ADD_TEAM ''A'', SUBMIT ''A'' ''p1'' ''Wrong_Answer'' 5,
               SUBMIT ''A'' ''p1'' ''Accepted'' 15] (initial 0))"

text \<open>
  A state with a tie on solved count and penalty: X solved at times 10 and 30, Y at times
  20 and 20, Z solved nothing; the scoreboard was frozen before the last two submissions.
\<close>

definition example_tie :: ICPCSystem where
  "example_tie =
     snd (run [ADD_TEAM ''X'', ADD_TEAM ''Y'', ADD_TEAM ''Z'',
               SUBMIT ''X'' ''p1'' ''Accepted'' 10,
               SUBMIT ''Y'' ''p1'' ''Accepted'' 20,
               FREEZE,
               SUBMIT ''Y'' ''p2'' ''Accepted'' 20,
               SUBMIT ''X'' ''p2'' ''Accepted'' 30] (initial 0))"

text \<open>Two teams without submissions, registered in the order B, A.\<close>

definition example_two_new :: ICPCSystem where
  "example_two_new = snd (run [ADD_TEAM ''B'', ADD_TEAM ''A''] (initial 0))"

text \<open>A strict total order on the set \<open>S\<close>.\<close>

definition strict_total_on :: "'a set \<Rightarrow> ('a \<Rightarrow> 'a \<Rightarrow> bool) \<Rightarrow> bool" where
  "strict_total_on S lt \<longleftrightarrow>
     (\<forall>x \<in> S. \<not> lt x x) \<and>
     (\<forall>x \<in> S. \<forall>y \<in> S. x \<noteq> y \<longrightarrow> lt x y \<or> lt y x) \<and>
     (\<forall>x \<in> S. \<forall>y \<in> S. \<forall>z \<in> S. lt x y \<longrightarrow> lt y z \<longrightarrow> lt x z)"

text \<open>The messages that report a failed operation.\<close>

fun is_error :: "message \<Rightarrow> bool" where
  "is_error Error_Add_Duplicated = True"
| "is_error Error_Submit_No_Team = True"
| "is_error Error_Freeze_Frozen = True"
| "is_error Error_Scroll_Not_Frozen = True"
| "is_error Error_Query_Ranking_No_Team = True"
| "is_error Error_Query_Submission_No_Team = True"
| "is_error _ = False"

text \<open>
  The two filters of a submission query: the value "ALL" of a filter matches every problem,
  or every status.
\<close>

definition matches_filters :: "string \<Rightarrow> string \<Rightarrow> Submission \<Rightarrow> bool" where
  "matches_filters pn st x \<longleftrightarrow>
     (pn = ''ALL'' \<or> problem_name x = pn) \<and> (st = ''ALL'' \<or> status x = st)"

text \<open>The line that \<open>query_submission\<close> prints for a submission.\<close>

definition submission_row :: "Submission \<Rightarrow> message" where
  "submission_row x = Submission_Row (team_name x) (problem_name x) (status x) (time x)"

text \<open>A command whose submission time, if it has one, is not negative.\<close>

fun submit_time_nonneg :: "command \<Rightarrow> bool" where
  "submit_time_nonneg (SUBMIT tn pn st tm) = (0 \<le> tm)"
| "submit_time_nonneg _ = True"

text \<open>
  The penalty sum of a command stays in the range of \<open>int\<close>: if the command is a first
  acceptance by a registered team, the penalty of the team plus the penalty of the problem
  satisfies \<open>int32\<close>. For a list of commands run from a state, every command does so in the
  state it is executed in.
\<close>

fun penalty_step_in_range :: "command \<Rightarrow> ICPCSystem \<Rightarrow> bool" where
  "penalty_step_in_range (SUBMIT tn pn st tm) s =
     (case teams s tn of
        None \<Rightarrow> True
      | Some t \<Rightarrow>
          st = ''Accepted'' \<and> first_ac_time t pn = None \<longrightarrow>
          int32 (penalty_time t + (20 * count_at (wrong_submissions t) pn + tm)))"
| "penalty_step_in_range _ s = True"

fun penalty_in_range :: "command list \<Rightarrow> ICPCSystem \<Rightarrow> bool" where
  "penalty_in_range [] s = True"
| "penalty_in_range (c # cs) s =
     (penalty_step_in_range c s \<and> (c = END \<or> penalty_in_range cs (snd (exec c s))))"

text \<open>The team a scoreboard row is about; \<open>None\<close> for the other messages.\<close>

fun row_team :: "message \<Rightarrow> string option" where
  "row_team (Scoreboard_Row n r sv p) = Some n"
| "row_team _ = None"

section \<open>Basic facts\<close>

lemmas eval_defs = initial_def add_team_def submit_def update_team_stats_def start_def
  freeze_def scroll_def flush_scoreboard_def update_scoreboard_def query_ranking_def
  query_submission_def end_competition_def default_team_def count_at_def team_at_def
  sort_reversed_def std_sort_def compare_teams_def wrap32_def Let_def

lemma count_at_upd: "count_at (m(k \<mapsto> v)) k' = (if k' = k then v else count_at m k')"
  by (simp add: count_at_def)

subsection \<open>32-bit arithmetic\<close>

lemma wrap32_add_right: "wrap32 (a + wrap32 b) = wrap32 (a + b)"
proof -
  have "(a + ((b + 2 ^ 31) mod 2 ^ 32 - 2 ^ 31) + 2 ^ 31) mod 2 ^ 32 =
      (a + (b + 2 ^ 31) mod 2 ^ 32) mod (2 ^ 32 :: int)"
    by simp
  also have "\<dots> = (a + (b + 2 ^ 31)) mod 2 ^ 32"
    by (rule mod_add_right_eq)
  finally show ?thesis by (simp add: wrap32_def add.assoc)
qed

lemma wrap32_add_left: "wrap32 (wrap32 a + b) = wrap32 (a + b)"
  using wrap32_add_right [of b a] by (simp add: add.commute)

lemma wrap32_in_range: "int32 x \<Longrightarrow> wrap32 x = x"
  by (simp add: int32_def wrap32_def)

lemma int32_wrap32: "int32 (wrap32 x)"
  by (simp add: int32_def wrap32_def)

lemma wrap32_penalty:
  "wrap32 (p + wrap32 (wrap32 (20 * c) + t)) = wrap32 (p + (20 * c + t))"
  by (simp add: wrap32_add_right wrap32_add_left)

subsection \<open>Sorting\<close>

lemma descending_sort_reversed: "descending (sort_reversed v)"
  by (simp add: descending_def sort_reversed_def sorted_wrt_rev)

lemma mset_sort_reversed: "mset (sort_reversed v) = mset v"
  by (simp add: sort_reversed_def)

lemma length_sort_reversed: "length (sort_reversed v) = length v"
  by (simp add: sort_reversed_def)

lemma mset_insert_by: "mset (insert_by lt x ys) = add_mset x (mset ys)"
  by (induction ys) simp_all

lemma mset_std_sort: "mset (std_sort lt xs) = mset xs"
  by (induction xs) (simp_all add: std_sort_def mset_insert_by)

lemma set_std_sort: "set (std_sort lt xs) = set xs"
  using mset_std_sort [of lt xs] by (rule mset_eq_setD)

lemma distinct_std_sort: "distinct (std_sort lt xs) = distinct xs"
  using mset_std_sort [of lt xs] by (rule mset_eq_imp_distinct_iff)

lemma length_std_sort: "length (std_sort lt xs) = length xs"
  using mset_std_sort [of lt xs] by (rule mset_eq_length)

subsection \<open>The three cases of \<open>update_team_stats\<close>\<close>

lemma update_first_accepted:
  assumes "status sub = ''Accepted''" and "first_ac_time t (problem_name sub) = None"
  shows "update_team_stats t sub =
     t\<lparr>submissions := submissions t @ [sub],
       first_ac_time := (first_ac_time t)(problem_name sub \<mapsto> time sub),
       wrong_submissions :=
         (wrong_submissions t)
           (problem_name sub \<mapsto> count_at (wrong_submissions t) (problem_name sub)),
       penalty_time :=
         wrap32 (penalty_time t +
           (20 * count_at (wrong_submissions t) (problem_name sub) + time sub)),
       solved_problems := solved_problems t + 1,
       solve_times := sort_reversed (solve_times t @ [time sub])\<rparr>"
  using assms by (simp add: update_team_stats_def Let_def wrap32_penalty)

lemma update_later_accepted:
  assumes "status sub = ''Accepted''" and "first_ac_time t (problem_name sub) \<noteq> None"
  shows "update_team_stats t sub = t\<lparr>submissions := submissions t @ [sub]\<rparr>"
  using assms by (auto simp add: update_team_stats_def Let_def)

lemma update_rejected:
  assumes "status sub \<noteq> ''Accepted''"
  shows "update_team_stats t sub =
     t\<lparr>submissions := submissions t @ [sub],
       wrong_submissions :=
         (wrong_submissions t)
           (problem_name sub \<mapsto> count_at (wrong_submissions t) (problem_name sub) + 1)\<rparr>"
  using assms by (simp add: update_team_stats_def Let_def)

lemma name_update_team_stats: "name (update_team_stats t sub) = name t"
  by (simp add: update_team_stats_def Let_def)

subsection \<open>The ledger invariant\<close>

lemma ledger_invI:
  assumes "finite (dom (first_ac_time t))"
    and "solved_problems t = int (card (dom (first_ac_time t)))"
    and "solved_problems t = int (length (solve_times t))"
    and "descending (solve_times t)"
    and "\<And>pn. first_ac_time t pn = None \<longleftrightarrow> (\<forall>x \<in> set (submissions t). \<not> accepted_for pn x)"
    and "\<And>pn. count_at (wrong_submissions t) pn =
               int (length (filter (rejected_for pn) (submissions t)))"
  shows "ledger_inv t"
  using assms unfolding ledger_inv_def by blast

lemma ledger_inv_default: "ledger_inv (default_team\<lparr>name := tn\<rparr>)"
  by (simp add: ledger_inv_def default_team_def descending_def count_at_def)

lemma ledger_inv_update:
  assumes inv: "ledger_inv t"
  shows "ledger_inv (update_team_stats t sub)"
proof -
  from inv have fin: "finite (dom (first_ac_time t))"
    and card: "solved_problems t = int (card (dom (first_ac_time t)))"
    and len: "solved_problems t = int (length (solve_times t))"
    and desc: "descending (solve_times t)"
    and acc: "\<And>pn. first_ac_time t pn = None \<longleftrightarrow>
                 (\<forall>x \<in> set (submissions t). \<not> accepted_for pn x)"
    and rej: "\<And>pn. count_at (wrong_submissions t) pn =
                 int (length (filter (rejected_for pn) (submissions t)))"
    unfolding ledger_inv_def by blast+
  from card len have cl: "card (dom (first_ac_time t)) = length (solve_times t)" by simp
  show ?thesis
  proof (cases "status sub = ''Accepted''")
    case st: True
    have nrej: "\<not> rejected_for pn sub" for pn
      using st by (simp add: rejected_for_def)
    have acc_iff: "accepted_for pn sub \<longleftrightarrow> pn = problem_name sub" for pn
      using st by (auto simp: accepted_for_def)
    show ?thesis
    proof (cases "first_ac_time t (problem_name sub) = None")
      case True
      then have notin: "problem_name sub \<notin> dom (first_ac_time t)" by auto
      show ?thesis
        unfolding update_first_accepted [OF st True]
        apply (rule ledger_invI)
        subgoal by (simp add: fin)
        subgoal by (simp add: fin card notin)
        subgoal by (simp add: len length_sort_reversed)
        subgoal by (simp add: descending_sort_reversed)
        subgoal for pn using acc [of pn] by (cases "pn = problem_name sub") (simp_all add: acc_iff)
        subgoal for pn using rej [of pn] by (auto simp add: count_at_upd nrej)
        done
    next
      case False
      show ?thesis
        unfolding update_later_accepted [OF st False]
        apply (rule ledger_invI)
        subgoal by (simp add: fin)
        subgoal by (simp add: card)
        subgoal by (simp add: len)
        subgoal by (simp add: desc)
        subgoal for pn
          using acc [of pn] False by (cases "pn = problem_name sub") (simp_all add: acc_iff)
        subgoal for pn using rej [of pn] by (simp add: nrej)
        done
    qed
  next
    case False
    have nacc: "\<not> accepted_for pn sub" for pn
      using False by (simp add: accepted_for_def)
    have rej_iff: "rejected_for pn sub \<longleftrightarrow> pn = problem_name sub" for pn
      using False by (auto simp: rejected_for_def)
    show ?thesis
      unfolding update_rejected [OF False]
      apply (rule ledger_invI)
      subgoal by (simp add: fin)
      subgoal by (simp add: card)
      subgoal by (simp add: len)
      subgoal by (simp add: desc)
      subgoal for pn using acc [of pn] by (simp add: nacc)
      subgoal for pn
        using rej [of pn] by (cases "pn = problem_name sub") (simp_all add: count_at_upd rej_iff)
      done
  qed
qed

subsection \<open>The system invariant holds in every reachable state\<close>

lemma system_inv_initial: "system_inv (initial d)"
  by (simp add: system_inv_def initial_def)

lemma system_inv_update_scoreboard: "system_inv s \<Longrightarrow> system_inv (update_scoreboard s)"
  by (simp add: system_inv_def update_scoreboard_def set_std_sort distinct_std_sort)

lemma system_inv_add_team: "system_inv s \<Longrightarrow> system_inv (snd (add_team tn s))"
  by (auto simp add: system_inv_def add_team_def ledger_inv_default)

lemma system_inv_submit: "system_inv s \<Longrightarrow> system_inv (snd (submit tn pn st tm s))"
  by (auto simp add: system_inv_def submit_def Let_def ledger_inv_update name_update_team_stats
      split: option.splits)

lemma system_inv_exec:
  assumes inv: "system_inv s"
  shows "system_inv (snd (exec c s))"
proof (cases c)
  case (START d)
  with inv show ?thesis by (simp add: start_def system_inv_def)
next
  case (ADD_TEAM tn)
  with inv show ?thesis by (simp add: system_inv_add_team)
next
  case (SUBMIT tn pn st tm)
  with inv show ?thesis by (simp add: system_inv_submit)
next
  case FLUSH
  with inv show ?thesis by (simp add: flush_scoreboard_def system_inv_update_scoreboard)
next
  case FREEZE
  with inv show ?thesis by (simp add: freeze_def system_inv_def)
next
  case SCROLL
  from inv have "system_inv (s\<lparr>is_frozen := False\<rparr>)" by (simp add: system_inv_def)
  then have "system_inv (update_scoreboard (s\<lparr>is_frozen := False\<rparr>))"
    by (rule system_inv_update_scoreboard)
  with inv SCROLL show ?thesis by (simp add: scroll_def Let_def)
next
  case (QUERY_RANKING tn)
  with inv show ?thesis by (simp add: query_ranking_def)
next
  case (QUERY_SUBMISSION tn pn st)
  with inv show ?thesis by (simp add: query_submission_def)
next
  case END
  with inv show ?thesis by (simp add: end_competition_def)
qed

lemma reachable_system_inv: "reachable s \<Longrightarrow> system_inv s"
  by (induction rule: reachable.induct) (simp_all add: system_inv_initial system_inv_exec)

lemma reachable_ledger_inv: "reachable s \<Longrightarrow> teams s tn = Some t \<Longrightarrow> ledger_inv t"
  using reachable_system_inv [of s] by (simp add: system_inv_def)

lemma order_registered: "reachable s \<Longrightarrow> tn \<in> set (team_order s) \<Longrightarrow> teams s tn \<noteq> None"
  using reachable_system_inv [of s] by (auto simp add: system_inv_def)

lemma penalty_update_team_stats_int32:
  "int32 (penalty_time t) \<Longrightarrow> int32 (penalty_time (update_team_stats t sub))"
  by (simp add: update_team_stats_def Let_def int32_wrap32)

lemma reachable_penalty_int32:
  "reachable s \<Longrightarrow> teams s tn = Some t \<Longrightarrow> int32 (penalty_time t)"
proof (induction arbitrary: tn t rule: reachable.induct)
  case (reachable_initial d)
  then show ?case by (simp add: initial_def)
next
  case (reachable_exec s c)
  show ?case
  proof (cases c)
    case (START d)
    with reachable_exec show ?thesis by (simp add: start_def)
  next
    case (ADD_TEAM a)
    with reachable_exec show ?thesis
      by (auto simp add: add_team_def default_team_def int32_def split: if_splits)
  next
    case (SUBMIT a pn st tm)
    with reachable_exec show ?thesis
      by (auto simp add: submit_def Let_def penalty_update_team_stats_int32
          split: option.splits if_splits)
  next
    case FLUSH
    with reachable_exec show ?thesis by (simp add: flush_scoreboard_def update_scoreboard_def)
  next
    case FREEZE
    with reachable_exec show ?thesis by (simp add: freeze_def split: if_splits)
  next
    case SCROLL
    with reachable_exec show ?thesis
      by (simp add: scroll_def update_scoreboard_def Let_def split: if_splits)
  next
    case (QUERY_RANKING a)
    with reachable_exec show ?thesis by (simp add: query_ranking_def split: if_splits)
  next
    case (QUERY_SUBMISSION a pn st)
    with reachable_exec show ?thesis by (simp add: query_submission_def split: if_splits)
  next
    case END
    with reachable_exec show ?thesis by (simp add: end_competition_def)
  qed
qed

lemma reachable_run: "reachable s \<Longrightarrow> reachable (snd (run cs s))"
proof (induction cs arbitrary: s)
  case Nil
  then show ?case by simp
next
  case (Cons c cs)
  have step: "reachable (snd (exec c s))"
    using Cons.prems by (rule reachable_exec)
  from Cons.IH [OF step] step show ?case
    by (cases "c = END") (simp_all add: case_prod_unfold Let_def)
qed

lemma submit_registered:
  "teams s tn = Some t \<Longrightarrow>
   teams (snd (submit tn pn st tm s)) =
     (teams s)(tn \<mapsto> update_team_stats t
        \<lparr>team_name = tn, problem_name = pn, status = st, time = tm\<rparr>)"
  by (simp add: submit_def Let_def)

lemma reachable_example_one_wrong: "reachable example_one_wrong"
  unfolding example_one_wrong_def by (rule reachable_run) (rule reachable_initial)

lemma reachable_example_solved: "reachable example_solved"
  unfolding example_solved_def by (rule reachable_run) (rule reachable_initial)

lemma example_one_wrong_team:
  "teams example_one_wrong ''A'' =
     Some \<lparr>name = ''A'', solved_problems = 0, penalty_time = 0,
           wrong_submissions = [''p1'' \<mapsto> 1], first_ac_time = Map.empty, solve_times = [],
           submissions = [\<lparr>team_name = ''A'', problem_name = ''p1'',
                           status = ''Wrong_Answer'', time = 5\<rparr>]\<rparr>"
  by (simp add: example_one_wrong_def eval_defs)

lemma example_solved_team:
  "teams example_solved ''A'' =
     Some \<lparr>name = ''A'', solved_problems = 1, penalty_time = 35,
           wrong_submissions = [''p1'' \<mapsto> 1], first_ac_time = [''p1'' \<mapsto> 15],
           solve_times = [15],
           submissions = [\<lparr>team_name = ''A'', problem_name = ''p1'',
                           status = ''Wrong_Answer'', time = 5\<rparr>,
                          \<lparr>team_name = ''A'', problem_name = ''p1'',
                           status = ''Accepted'', time = 15\<rparr>]\<rparr>"
  by (simp add: example_solved_def eval_defs)

subsection \<open>A team's history is its part of the global log\<close>

lemma submissions_update_team_stats:
  "submissions (update_team_stats t sub) = submissions t @ [sub]"
  by (simp add: update_team_stats_def Let_def)

lemma history_inv_exec:
  assumes inv: "history_inv s"
  shows "history_inv (snd (exec c s))"
proof (cases c)
  case (START d)
  with inv show ?thesis by (simp add: start_def history_inv_def)
next
  case (ADD_TEAM tn)
  show ?thesis
  proof (cases "teams s tn = None")
    case True
    with inv have "filter (\<lambda>x. team_name x = tn) (all_submissions s) = []"
      unfolding history_inv_def by (auto simp: filter_empty_conv)
    with inv True ADD_TEAM show ?thesis
      by (auto simp add: add_team_def history_inv_def default_team_def)
  next
    case False
    with inv ADD_TEAM show ?thesis by (auto simp add: add_team_def)
  qed
next
  case (SUBMIT tn pn st tm)
  show ?thesis
  proof (cases "teams s tn")
    case None
    with inv SUBMIT show ?thesis by (simp add: submit_def)
  next
    case (Some t)
    with inv SUBMIT show ?thesis
      by (auto simp add: submit_def Let_def history_inv_def submissions_update_team_stats)
  qed
next
  case FLUSH
  with inv show ?thesis by (simp add: flush_scoreboard_def update_scoreboard_def history_inv_def)
next
  case FREEZE
  with inv show ?thesis by (simp add: freeze_def history_inv_def)
next
  case SCROLL
  with inv show ?thesis by (simp add: scroll_def update_scoreboard_def Let_def history_inv_def)
next
  case (QUERY_RANKING tn)
  with inv show ?thesis by (simp add: query_ranking_def)
next
  case (QUERY_SUBMISSION tn pn st)
  with inv show ?thesis by (simp add: query_submission_def)
next
  case END
  with inv show ?thesis by (simp add: end_competition_def)
qed

lemma reachable_history_inv: "reachable s \<Longrightarrow> history_inv s"
proof (induction rule: reachable.induct)
  case (reachable_initial d)
  show ?case by (simp add: history_inv_def initial_def)
next
  case (reachable_exec s c)
  then show ?case by (simp add: history_inv_exec)
qed

lemma history_is_log_of_team:
  "reachable s \<Longrightarrow> teams s tn = Some t \<Longrightarrow>
   submissions t = filter (\<lambda>x. team_name x = tn) (all_submissions s)"
  using reachable_history_inv [of s] unfolding history_inv_def by blast

section \<open>The claims\<close>

text \<open>
  C1. For every team and problem, the first submission with outcome "Accepted" for that
  (team, problem) pair adds exactly 20 * (wrong-submission count recorded for the problem
  so far) + (submission time) to the team's total penalty, increments the solved count by
  exactly 1, inserts the submission time into the solve times keeping them in descending
  order, and records the first-acceptance time; every later submission for the same
  pair, of any status, leaves solved count, penalty and solve times unchanged.

  As stated the claim fails for the penalty when the sum leaves the range of a 32-bit
  \<open>int\<close>. In \<open>example_one_wrong\<close> team A has penalty 0 and one wrong submission for p1; its
  first acceptance of p1 at time 2147483647 gives the penalty -2147483629, which is not
  \<open>0 + (20 * 1 + 2147483647)\<close>.
\<close>

theorem first_accepted_penalty_overflows:
  "receivable (SUBMIT ''A'' ''p1'' ''Accepted'' 2147483647) \<and>
   penalty_time (team_at (teams example_one_wrong) ''A'') = 0 \<and>
   count_at (wrong_submissions (team_at (teams example_one_wrong) ''A'')) ''p1'' = 1 \<and>
   first_ac_time (team_at (teams example_one_wrong) ''A'') ''p1'' = None \<and>
   penalty_time
     (team_at (teams (snd (submit ''A'' ''p1'' ''Accepted'' 2147483647 example_one_wrong))) ''A'') =
     - 2147483629 \<and>
   penalty_time
     (team_at (teams (snd (submit ''A'' ''p1'' ''Accepted'' 2147483647 example_one_wrong))) ''A'') \<noteq>
     penalty_time (team_at (teams example_one_wrong) ''A'') +
       (20 * count_at (wrong_submissions (team_at (teams example_one_wrong) ''A'')) ''p1'' +
        2147483647)"
  by (simp add: submit_registered [OF example_one_wrong_team] example_one_wrong_team
      team_at_def count_at_def update_team_stats_def wrap32_def int32_def Let_def)

text \<open>
  C1, amended. For every team and problem, the first submission with outcome "Accepted"
  for that (team, problem) pair adds 20 * (wrong-submission count recorded for the
  problem so far) + (submission time) to the team's total penalty in 32-bit arithmetic:
  the new penalty is that sum wrapped into the range of \<open>int\<close>, and it is exactly the sum
  whenever the sum lies in that range. The submission increments the solved count by
  exactly 1, inserts the submission time into the solve times keeping them in descending
  order, and records the first-acceptance time; every later submission for the same
  pair, of any status, leaves solved count, penalty and solve times unchanged.

  Stated on \<open>submit\<close> in a reachable state \<open>s\<close> in which team \<open>tn\<close> has the ledger \<open>t\<close>; \<open>t'\<close>
  is the ledger after the submission. The submission is the first accepted one for the pair
  when the team's history \<open>submissions t\<close> holds no accepted submission for \<open>pn\<close>, and a
  later one when it holds one. The counter read by the penalty is the number of rejected
  submissions for \<open>pn\<close> in the history.
\<close>

theorem first_accepted_counts_once:
  assumes "reachable s" and "teams s tn = Some t"
  shows "\<exists>t'. teams (snd (submit tn pn st tm s)) tn = Some t' \<and>
     count_at (wrong_submissions t) pn =
       int (length (filter (rejected_for pn) (submissions t))) \<and>
     (st = ''Accepted'' \<and> (\<forall>x \<in> set (submissions t). \<not> accepted_for pn x) \<longrightarrow>
        penalty_time t' =
          wrap32 (penalty_time t + (20 * count_at (wrong_submissions t) pn + tm)) \<and>
        (int32 (penalty_time t + (20 * count_at (wrong_submissions t) pn + tm)) \<longrightarrow>
           penalty_time t' = penalty_time t + (20 * count_at (wrong_submissions t) pn + tm)) \<and>
        solved_problems t' = solved_problems t + 1 \<and>
        mset (solve_times t') = add_mset tm (mset (solve_times t)) \<and>
        descending (solve_times t') \<and>
        first_ac_time t pn = None \<and> first_ac_time t' pn = Some tm) \<and>
     ((\<exists>x \<in> set (submissions t). accepted_for pn x) \<longrightarrow>
        solved_problems t' = solved_problems t \<and>
        penalty_time t' = penalty_time t \<and>
        solve_times t' = solve_times t)"
proof -
  define sub where "sub = \<lparr>team_name = tn, problem_name = pn, status = st, time = tm\<rparr>"
  have pn: "problem_name sub = pn" and st: "status sub = st" and tm: "time sub = tm"
    by (simp_all add: sub_def)
  have inv: "ledger_inv t"
    using assms by (rule reachable_ledger_inv)
  then have acc: "first_ac_time t pn = None \<longleftrightarrow>
        (\<forall>x \<in> set (submissions t). \<not> accepted_for pn x)"
    and rej: "count_at (wrong_submissions t) pn =
        int (length (filter (rejected_for pn) (submissions t)))"
    unfolding ledger_inv_def by blast+
  have t': "teams (snd (submit tn pn st tm s)) tn = Some (update_team_stats t sub)"
    using assms(2) by (simp add: submit_registered sub_def)
  have first: "penalty_time (update_team_stats t sub) =
        wrap32 (penalty_time t + (20 * count_at (wrong_submissions t) pn + tm)) \<and>
      (int32 (penalty_time t + (20 * count_at (wrong_submissions t) pn + tm)) \<longrightarrow>
         penalty_time (update_team_stats t sub) =
           penalty_time t + (20 * count_at (wrong_submissions t) pn + tm)) \<and>
      solved_problems (update_team_stats t sub) = solved_problems t + 1 \<and>
      mset (solve_times (update_team_stats t sub)) = add_mset tm (mset (solve_times t)) \<and>
      descending (solve_times (update_team_stats t sub)) \<and>
      first_ac_time t pn = None \<and> first_ac_time (update_team_stats t sub) pn = Some tm"
    if "st = ''Accepted''" and "\<forall>x \<in> set (submissions t). \<not> accepted_for pn x"
  proof -
    from that acc have none: "first_ac_time t (problem_name sub) = None"
      by (simp add: pn)
    from that have "status sub = ''Accepted''"
      by (simp add: st)
    from update_first_accepted [OF this none] none show ?thesis
      by (simp add: pn tm mset_sort_reversed descending_sort_reversed wrap32_in_range)
  qed
  have later: "solved_problems (update_team_stats t sub) = solved_problems t \<and>
      penalty_time (update_team_stats t sub) = penalty_time t \<and>
      solve_times (update_team_stats t sub) = solve_times t"
    if "\<exists>x \<in> set (submissions t). accepted_for pn x"
  proof -
    from that acc have some: "first_ac_time t (problem_name sub) \<noteq> None"
      by (simp add: pn)
    show ?thesis
    proof (cases "status sub = ''Accepted''")
      case True
      from update_later_accepted [OF True some] show ?thesis by simp
    next
      case False
      from update_rejected [OF False] show ?thesis by simp
    qed
  qed
  from t' rej first later show ?thesis by blast
qed

text \<open>
  The instance: after one wrong answer at time 5, the first acceptance at time 15 adds
  \<open>20 * 1 + 15 = 35\<close>, which is in the range of \<open>int\<close>; after that acceptance, a second
  acceptance at time 30 changes nothing.
\<close>

theorem first_accepted_counts_once_witness:
  "reachable example_one_wrong \<and> int32 (0 + (20 * 1 + 15)) \<and>
   (\<exists>t'. teams (snd (submit ''A'' ''p1'' ''Accepted'' 15 example_one_wrong)) ''A'' = Some t' \<and>
      penalty_time t' = 35 \<and> solved_problems t' = 1 \<and> solve_times t' = [15] \<and>
      first_ac_time t' ''p1'' = Some 15) \<and>
   reachable example_solved \<and>
   (\<exists>t'. teams (snd (submit ''A'' ''p1'' ''Accepted'' 30 example_solved)) ''A'' = Some t' \<and>
      penalty_time t' = 35 \<and> solved_problems t' = 1 \<and> solve_times t' = [15])"
  using
    first_accepted_counts_once [OF reachable_example_one_wrong example_one_wrong_team,
      of "''p1''" "''Accepted''" 15]
    first_accepted_counts_once [OF reachable_example_solved example_solved_team,
      of "''p1''" "''Accepted''" 30]
    reachable_example_one_wrong reachable_example_solved
  by (auto simp add: accepted_for_def rejected_for_def count_at_def int32_def wrap32_def)

subsection \<open>The comparator\<close>

lemma compare_solve_times_lex:
  "length xs = length ys \<Longrightarrow>
   compare_solve_times xs ys = (if xs = ys then None else Some (xs < ys))"
  by (induction xs ys rule: list_induct2) auto

lemma first_difference_iff:
  "length xs = length ys \<Longrightarrow>
   (xs :: int list) < ys \<longleftrightarrow> (\<exists>i < length xs. (\<forall>j < i. xs ! j = ys ! j) \<and> xs ! i < ys ! i)"
proof (induction xs ys rule: list_induct2)
  case Nil
  then show ?case by simp
next
  case (Cons x xs y ys)
  show ?case
  proof (cases "x = y")
    case True
    have "(\<exists>i < length (x # xs). (\<forall>j < i. (x # xs) ! j = (y # ys) ! j) \<and> (x # xs) ! i < (y # ys) ! i)
      \<longleftrightarrow> (\<exists>i < length xs. (\<forall>j < i. xs ! j = ys ! j) \<and> xs ! i < ys ! i)" (is "?L \<longleftrightarrow> ?R")
    proof
      assume ?L
      then obtain i where i: "i < length (x # xs)" "\<forall>j < i. (x # xs) ! j = (y # ys) ! j"
        "(x # xs) ! i < (y # ys) ! i" by blast
      from i(3) True obtain k where k: "i = Suc k" by (cases i) auto
      have "\<forall>j < k. xs ! j = ys ! j"
      proof (intro allI impI)
        fix j assume "j < k"
        then have "Suc j < i" by (simp add: k)
        with i(2) have "(x # xs) ! Suc j = (y # ys) ! Suc j" by blast
        then show "xs ! j = ys ! j" by simp
      qed
      with i k show ?R by auto
    next
      assume ?R
      then obtain i where i: "i < length xs" "\<forall>j < i. xs ! j = ys ! j" "xs ! i < ys ! i" by blast
      have "\<forall>j < Suc i. (x # xs) ! j = (y # ys) ! j"
        using i(2) True by (auto simp: nth_Cons split: nat.splits)
      with i show ?L by (intro exI [of _ "Suc i"]) simp
    qed
    with True Cons.IH show ?thesis by simp
  next
    case False
    have "(\<exists>i < length (x # xs). (\<forall>j < i. (x # xs) ! j = (y # ys) ! j) \<and> (x # xs) ! i < (y # ys) ! i)
      \<longleftrightarrow> x < y" (is "?L \<longleftrightarrow> _")
    proof
      assume ?L
      then obtain i where i: "i < length (x # xs)" "\<forall>j < i. (x # xs) ! j = (y # ys) ! j"
        "(x # xs) ! i < (y # ys) ! i" by blast
      show "x < y"
      proof (cases i)
        case 0
        with i(3) show ?thesis by simp
      next
        case (Suc k)
        with i(2) have "(x # xs) ! 0 = (y # ys) ! 0" by blast
        with False show ?thesis by simp
      qed
    next
      assume "x < y"
      then show ?L by (intro exI [of _ 0]) simp
    qed
    with False show ?thesis by simp
  qed
qed


lemma compare_teams_registered:
  assumes "teams s a = Some A" and "teams s b = Some B"
  shows "compare_teams s a b =
     (if solved_problems A \<noteq> solved_problems B then solved_problems A > solved_problems B
      else if penalty_time A \<noteq> penalty_time B then penalty_time A < penalty_time B
      else (case compare_solve_times (solve_times A) (solve_times B) of
              Some r \<Rightarrow> r | None \<Rightarrow> a < b))"
  using assms by (simp add: compare_teams_def team_at_def)

lemma compare_teams_key:
  assumes "teams s a = Some A" and "teams s b = Some B"
    and "solved_problems A = int (length (solve_times A))"
    and "solved_problems B = int (length (solve_times B))"
  shows "compare_teams s a b \<longleftrightarrow>
     solved_problems A > solved_problems B \<or>
     solved_problems A = solved_problems B \<and>
       (penalty_time A < penalty_time B \<or>
        penalty_time A = penalty_time B \<and>
          (solve_times A < solve_times B \<or> solve_times A = solve_times B \<and> a < b))"
proof (cases "solved_problems A = solved_problems B")
  case True
  with assms(3,4) have "length (solve_times A) = length (solve_times B)" by simp
  from compare_solve_times_lex [OF this] True show ?thesis
    by (simp add: compare_teams_registered [OF assms(1,2)])
next
  case False
  then show ?thesis by (auto simp add: compare_teams_registered [OF assms(1,2)])
qed


lemma reachable_example_tie: "reachable example_tie"
  unfolding example_tie_def by (rule reachable_run) (rule reachable_initial)

lemma example_tie_X:
  "teams example_tie ''X'' =
     Some \<lparr>name = ''X'', solved_problems = 2, penalty_time = 40,
           wrong_submissions = [''p1'' \<mapsto> 0, ''p2'' \<mapsto> 0],
           first_ac_time = [''p1'' \<mapsto> 10, ''p2'' \<mapsto> 30], solve_times = [30, 10],
           submissions = [\<lparr>team_name = ''X'', problem_name = ''p1'', status = ''Accepted'', time = 10\<rparr>,
                          \<lparr>team_name = ''X'', problem_name = ''p2'', status = ''Accepted'', time = 30\<rparr>]\<rparr>"
  by (simp add: example_tie_def eval_defs)

lemma example_tie_Y:
  "teams example_tie ''Y'' =
     Some \<lparr>name = ''Y'', solved_problems = 2, penalty_time = 40,
           wrong_submissions = [''p1'' \<mapsto> 0, ''p2'' \<mapsto> 0],
           first_ac_time = [''p1'' \<mapsto> 20, ''p2'' \<mapsto> 20], solve_times = [20, 20],
           submissions = [\<lparr>team_name = ''Y'', problem_name = ''p1'', status = ''Accepted'', time = 20\<rparr>,
                          \<lparr>team_name = ''Y'', problem_name = ''p2'', status = ''Accepted'', time = 20\<rparr>]\<rparr>"
  by (simp add: example_tie_def eval_defs)

lemma example_tie_Z:
  "teams example_tie ''Z'' = Some (default_team\<lparr>name := ''Z''\<rparr>)"
  by (simp add: example_tie_def eval_defs)

lemma example_tie_order: "team_order example_tie = [''X'', ''Y'', ''Z''] \<and> is_frozen example_tie"
  by (simp add: example_tie_def eval_defs)

lemma reachable_example_two_new: "reachable example_two_new"
  unfolding example_two_new_def by (rule reachable_run) (rule reachable_initial)

lemma example_two_new_teams:
  "teams example_two_new ''A'' = Some (default_team\<lparr>name := ''A''\<rparr>)"
  "teams example_two_new ''B'' = Some (default_team\<lparr>name := ''B''\<rparr>)"
  by (simp_all add: example_two_new_def eval_defs)

text \<open>
  C2. The standings comparator orders any two distinct teams by: higher solved count
  first; then lower total penalty first; then the solve times, which are in descending
  order, compared element by element from the largest down, the team with the smaller
  value at the first differing position first; then the lexicographically smaller team
  name first. Over every reachable set of team states the relation is a strict total
  order: of two distinct teams exactly one ranks before the other, and the relation is
  transitive.

  Stated for registered teams \<open>a\<close>, \<open>b\<close>, \<open>c\<close> of a reachable state, with ledgers \<open>A\<close>,
  \<open>B\<close>, \<open>C\<close>. In a reachable state two teams with the same solved count have the same
  number of solve times, so the loop of \<open>compare_teams\<close> compares the two vectors in full.
\<close>

theorem compare_teams_strict_total_order:
  assumes "reachable s"
    and "teams s a = Some A" and "teams s b = Some B" and "teams s c = Some C"
  shows "(compare_teams s a b \<longleftrightarrow>
           solved_problems A > solved_problems B \<or>
           solved_problems A = solved_problems B \<and>
             (penalty_time A < penalty_time B \<or>
              penalty_time A = penalty_time B \<and>
                ((\<exists>i < length (solve_times A).
                    (\<forall>j < i. solve_times A ! j = solve_times B ! j) \<and>
                    solve_times A ! i < solve_times B ! i) \<or>
                 solve_times A = solve_times B \<and> a < b))) \<and>
         descending (solve_times A) \<and> descending (solve_times B) \<and>
         (solved_problems A = solved_problems B \<longrightarrow>
            length (solve_times A) = length (solve_times B)) \<and>
         \<not> compare_teams s a a \<and>
         (a \<noteq> b \<longrightarrow> (compare_teams s a b \<longleftrightarrow> \<not> compare_teams s b a)) \<and>
         (compare_teams s a b \<and> compare_teams s b c \<longrightarrow> compare_teams s a c)"
proof -
  have invA: "ledger_inv A" and invB: "ledger_inv B" and invC: "ledger_inv C"
    using assms by (auto intro: reachable_ledger_inv)
  then have lenA: "solved_problems A = int (length (solve_times A))"
    and lenB: "solved_problems B = int (length (solve_times B))"
    and lenC: "solved_problems C = int (length (solve_times C))"
    and desc: "descending (solve_times A)" "descending (solve_times B)"
    unfolding ledger_inv_def by blast+
  note ab = compare_teams_key [OF assms(2,3) lenA lenB]
  note ba = compare_teams_key [OF assms(3,2) lenB lenA]
  note bc = compare_teams_key [OF assms(3,4) lenB lenC]
  note ac = compare_teams_key [OF assms(2,4) lenA lenC]
  note aa = compare_teams_key [OF assms(2,2) lenA lenA]
  have len: "length (solve_times A) = length (solve_times B)"
    if "solved_problems A = solved_problems B"
    using that lenA lenB by simp
  have order: "compare_teams s a b \<longleftrightarrow>
      solved_problems A > solved_problems B \<or>
      solved_problems A = solved_problems B \<and>
        (penalty_time A < penalty_time B \<or>
         penalty_time A = penalty_time B \<and>
           ((\<exists>i < length (solve_times A).
               (\<forall>j < i. solve_times A ! j = solve_times B ! j) \<and>
               solve_times A ! i < solve_times B ! i) \<or>
            solve_times A = solve_times B \<and> a < b))"
  proof (cases "solved_problems A = solved_problems B")
    case True
    from first_difference_iff [OF len [OF True]] True show ?thesis
      unfolding ab by simp
  next
    case False
    then show ?thesis unfolding ab by simp
  qed
  have irrefl: "\<not> compare_teams s a a"
    unfolding aa by simp
  have total: "compare_teams s a b \<longleftrightarrow> \<not> compare_teams s b a" if "a \<noteq> b"
    unfolding ab ba using that by auto
  have trans: "compare_teams s a c" if "compare_teams s a b" and "compare_teams s b c"
    using that unfolding ab bc ac by (auto intro: less_trans)
  from order desc len irrefl total trans show ?thesis by blast
qed


text \<open>
  The instances: in \<open>example_tie\<close> X and Y both solved two problems with penalty 40; Y's
  largest solve time is 20 and X's is 30, so Y ranks before X, and both rank before Z. In
  \<open>example_two_new\<close> the teams A and B have the same empty ledger and the names decide.
\<close>

theorem compare_teams_strict_total_order_witness:
  "reachable example_tie \<and>
   compare_teams example_tie ''Y'' ''X'' \<and> \<not> compare_teams example_tie ''X'' ''Y'' \<and>
   compare_teams example_tie ''X'' ''Z'' \<and> compare_teams example_tie ''Y'' ''Z'' \<and>
   \<not> compare_teams example_tie ''Y'' ''Y'' \<and>
   reachable example_two_new \<and>
   compare_teams example_two_new ''A'' ''B'' \<and> \<not> compare_teams example_two_new ''B'' ''A''"
proof -
  have yx: "compare_teams example_tie ''Y'' ''X''"
    by (simp add: compare_teams_registered [OF example_tie_Y example_tie_X])
  have xz: "compare_teams example_tie ''X'' ''Z''"
    by (simp add: compare_teams_registered [OF example_tie_X example_tie_Z] default_team_def)
  from compare_teams_strict_total_order
      [OF reachable_example_tie example_tie_Y example_tie_X example_tie_Z]
    compare_teams_strict_total_order
      [OF reachable_example_two_new example_two_new_teams(1,2,2)]
    reachable_example_tie reachable_example_two_new yx xz
  show ?thesis by (auto simp add: default_team_def)
qed

subsection \<open>Sorting with a comparator\<close>

lemma strict_total_on_subset: "strict_total_on S lt \<Longrightarrow> T \<subseteq> S \<Longrightarrow> strict_total_on T lt"
  unfolding strict_total_on_def by blast

lemma strict_total_on_asym:
  "strict_total_on S lt \<Longrightarrow> x \<in> S \<Longrightarrow> y \<in> S \<Longrightarrow> lt x y \<Longrightarrow> \<not> lt y x"
  unfolding strict_total_on_def by blast

lemma strict_total_on_trans:
  "strict_total_on S lt \<Longrightarrow> x \<in> S \<Longrightarrow> y \<in> S \<Longrightarrow> z \<in> S \<Longrightarrow> lt x y \<Longrightarrow> lt y z \<Longrightarrow> lt x z"
  unfolding strict_total_on_def by blast

lemma strict_total_on_total:
  "strict_total_on S lt \<Longrightarrow> x \<in> S \<Longrightarrow> y \<in> S \<Longrightarrow> x \<noteq> y \<Longrightarrow> \<not> lt x y \<Longrightarrow> lt y x"
  unfolding strict_total_on_def by blast

lemma set_insert_by: "set (insert_by lt x ys) = insert x (set ys)"
  by (induction ys) auto

lemma sorted_insert_by:
  assumes "strict_total_on (insert x (set ys)) lt" and "sorted_wrt lt ys" and "x \<notin> set ys"
  shows "sorted_wrt lt (insert_by lt x ys)"
  using assms
proof (induction ys)
  case Nil
  then show ?case by simp
next
  case (Cons y ys)
  have total: "strict_total_on (insert x (set (y # ys))) lt" by (rule Cons.prems(1))
  show ?case
  proof (cases "lt x y")
    case True
    have "lt x z" if "z \<in> set ys" for z
    proof -
      from Cons.prems(2) that have "lt y z" by simp
      with True that show ?thesis
        by (intro strict_total_on_trans [OF total, of x y z]) simp_all
    qed
    with True Cons.prems(2) show ?thesis by simp
  next
    case False
    from Cons.prems(3) have "x \<noteq> y" by simp
    with False have yx: "lt y x"
      by (intro strict_total_on_total [OF total, of x y]) simp_all
    have "strict_total_on (insert x (set ys)) lt"
      using total by (rule strict_total_on_subset) auto
    from Cons.IH [OF this] Cons.prems have "sorted_wrt lt (insert_by lt x ys)" by simp
    with False yx Cons.prems(2) show ?thesis by (simp add: set_insert_by)
  qed
qed

lemma sorted_std_sort:
  assumes "strict_total_on (set xs) lt" and "distinct xs"
  shows "sorted_wrt lt (std_sort lt xs)"
  using assms
proof (induction xs)
  case Nil
  then show ?case by (simp add: std_sort_def)
next
  case (Cons x xs)
  have "strict_total_on (set xs) lt"
    using Cons.prems(1) by (rule strict_total_on_subset) auto
  with Cons have sorted: "sorted_wrt lt (std_sort lt xs)" by simp
  have "strict_total_on (insert x (set (std_sort lt xs))) lt"
    using Cons.prems(1) by (simp add: set_std_sort)
  from sorted_insert_by [OF this sorted] Cons.prems(2) show ?case
    by (simp add: std_sort_def set_std_sort [unfolded std_sort_def])
qed

lemma sorted_wrt_unique:
  assumes "strict_total_on (set xs) lt"
    and "sorted_wrt lt xs" and "sorted_wrt lt ys" and "mset xs = mset ys"
  shows "xs = ys"
  using assms
proof (induction xs arbitrary: ys)
  case Nil
  then show ?case by simp
next
  case (Cons x xs)
  from Cons.prems(4) obtain y ys' where ys: "ys = y # ys'" by (cases ys) auto
  have sets: "set (x # xs) = set (y # ys')"
    using Cons.prems(4) unfolding ys by (rule mset_eq_setD)
  have "x = y"
  proof (rule ccontr)
    assume neq: "x \<noteq> y"
    with sets have "x \<in> set ys'" and "y \<in> set xs" by auto
    with Cons.prems(2,3) have "lt y x" and "lt x y" by (auto simp: ys)
    moreover have "x \<in> set (x # xs)" and "y \<in> set (x # xs)" using sets by auto
    ultimately show False using strict_total_on_asym [OF Cons.prems(1)] by blast
  qed
  moreover have "xs = ys'"
  proof (rule Cons.IH)
    show "strict_total_on (set xs) lt"
      using Cons.prems(1) by (rule strict_total_on_subset) auto
    show "sorted_wrt lt xs" using Cons.prems(2) by simp
    show "sorted_wrt lt ys'" using Cons.prems(3) by (simp add: ys)
    show "mset xs = mset ys'" using Cons.prems(4) \<open>x = y\<close> by (simp add: ys)
  qed
  ultimately show ?case by (simp add: ys)
qed

lemma sorted_wrt_distinct:
  "\<forall>x \<in> set xs. \<not> lt x x \<Longrightarrow> sorted_wrt lt xs \<Longrightarrow> distinct xs"
  by (induction xs) auto

lemma std_sort_unique:
  assumes total: "strict_total_on (set xs) lt"
    and perm: "mset ys = mset xs" and sorted: "sorted_wrt lt ys"
  shows "ys = std_sort lt xs"
proof -
  have sets: "set ys = set xs" using perm by (rule mset_eq_setD)
  with total have "\<forall>x \<in> set ys. \<not> lt x x" unfolding strict_total_on_def by simp
  from sorted_wrt_distinct [OF this sorted] have "distinct ys" .
  with perm have "distinct xs" using mset_eq_imp_distinct_iff by blast
  with total have "sorted_wrt lt (std_sort lt xs)" by (rule sorted_std_sort)
  moreover from total sets have "strict_total_on (set ys) lt" by simp
  ultimately show ?thesis
    using sorted perm by (intro sorted_wrt_unique) (simp_all add: mset_std_sort)
qed


subsection \<open>The comparator is a strict total order on the registered teams\<close>

lemma system_inv_length:
  "system_inv s \<Longrightarrow> teams s a = Some A \<Longrightarrow> solved_problems A = int (length (solve_times A))"
  unfolding system_inv_def ledger_inv_def by blast

lemma compare_teams_irrefl:
  assumes "system_inv s" and "teams s a = Some A"
  shows "\<not> compare_teams s a a"
  using compare_teams_key [OF assms(2,2)] system_inv_length [OF assms] by simp

lemma compare_teams_total:
  assumes "system_inv s" and "teams s a = Some A" and "teams s b = Some B" and "a \<noteq> b"
  shows "compare_teams s a b \<longleftrightarrow> \<not> compare_teams s b a"
proof -
  note lenA = system_inv_length [OF assms(1,2)] and lenB = system_inv_length [OF assms(1,3)]
  show ?thesis
    unfolding compare_teams_key [OF assms(2,3) lenA lenB]
      compare_teams_key [OF assms(3,2) lenB lenA]
    using assms(4) by auto
qed

lemma compare_teams_trans:
  assumes "system_inv s"
    and "teams s a = Some A" and "teams s b = Some B" and "teams s c = Some C"
    and "compare_teams s a b" and "compare_teams s b c"
  shows "compare_teams s a c"
proof -
  note lenA = system_inv_length [OF assms(1,2)] and lenB = system_inv_length [OF assms(1,3)]
    and lenC = system_inv_length [OF assms(1,4)]
  show ?thesis
    using assms(5,6)
    unfolding compare_teams_key [OF assms(2,3) lenA lenB]
      compare_teams_key [OF assms(3,4) lenB lenC]
      compare_teams_key [OF assms(2,4) lenA lenC]
    by (auto intro: less_trans)
qed

lemma compare_teams_strict_total_on:
  assumes "system_inv s"
  shows "strict_total_on (dom (teams s)) (compare_teams s)"
  unfolding strict_total_on_def
proof (intro conjI ballI impI)
  fix a assume "a \<in> dom (teams s)"
  then obtain A where "teams s a = Some A" by blast
  with assms show "\<not> compare_teams s a a" by (rule compare_teams_irrefl)
next
  fix a b assume "a \<in> dom (teams s)" and "b \<in> dom (teams s)" and "a \<noteq> b"
  then obtain A B where "teams s a = Some A" and "teams s b = Some B" by blast
  from compare_teams_total [OF assms this \<open>a \<noteq> b\<close>]
  show "compare_teams s a b \<or> compare_teams s b a" by blast
next
  fix a b c
  assume "a \<in> dom (teams s)" and "b \<in> dom (teams s)" and "c \<in> dom (teams s)"
    and "compare_teams s a b" and "compare_teams s b c"
  then obtain A B C where "teams s a = Some A" and "teams s b = Some B" and "teams s c = Some C"
    by blast
  from compare_teams_trans [OF assms this] \<open>compare_teams s a b\<close> \<open>compare_teams s b c\<close>
  show "compare_teams s a c" by blast
qed

lemma print_scoreboard_rows:
  "print_scoreboard m order k =
     map (\<lambda>i. Scoreboard_Row (name (team_at m (order ! i))) (k + i + 1)
                 (solved_problems (team_at m (order ! i)))
                 (penalty_time (team_at m (order ! i))))
       [0..<length order]"
proof (induction order arbitrary: k)
  case Nil
  then show ?case by simp
next
  case (Cons tn order)
  show ?case
    by (simp add: Cons.IH Let_def map_upt_Suc del: upt_Suc)
qed

lemma compare_teams_frozen_irrelevant: "compare_teams (s\<lparr>is_frozen := b\<rparr>) = compare_teams s"
  by (intro ext) (simp add: compare_teams_def)

lemma scroll_frozen:
  "is_frozen s \<Longrightarrow>
   scroll s =
     (Info_Scroll # print_scoreboard (teams s) (std_sort (compare_teams s) (team_order s)) 0,
      s\<lparr>is_frozen := False, team_order := std_sort (compare_teams s) (team_order s)\<rparr>)"
  by (simp add: scroll_def update_scoreboard_def Let_def compare_teams_frozen_irrelevant)


lemma example_solved_not_frozen: "\<not> is_frozen example_solved"
  by (simp add: example_solved_def eval_defs)

lemma scroll_example_tie:
  "scroll example_tie =
     ([Info_Scroll, Scoreboard_Row ''Y'' 1 2 40, Scoreboard_Row ''X'' 2 2 40,
       Scoreboard_Row ''Z'' 3 0 0],
      example_tie\<lparr>is_frozen := False, team_order := [''Y'', ''X'', ''Z'']\<rparr>)"
proof -
  have order: "team_order example_tie = [''X'', ''Y'', ''Z'']" and frozen: "is_frozen example_tie"
    using example_tie_order by simp_all
  have cmp: "\<not> compare_teams example_tie ''X'' ''Y''" "compare_teams example_tie ''Y'' ''X''"
    "\<not> compare_teams example_tie ''Z'' ''Y''" "\<not> compare_teams example_tie ''Z'' ''X''"
    "compare_teams example_tie ''Y'' ''Z''" "compare_teams example_tie ''X'' ''Z''"
    by (simp_all add: compare_teams_registered [OF example_tie_X example_tie_Y]
        compare_teams_registered [OF example_tie_Y example_tie_X]
        compare_teams_registered [OF example_tie_Z example_tie_Y]
        compare_teams_registered [OF example_tie_Z example_tie_X]
        compare_teams_registered [OF example_tie_Y example_tie_Z]
        compare_teams_registered [OF example_tie_X example_tie_Z] default_team_def)
  have sort: "std_sort (compare_teams example_tie) [''X'', ''Y'', ''Z''] = [''Y'', ''X'', ''Z'']"
    by (simp add: std_sort_def cmp)
  show ?thesis
    by (simp add: scroll_frozen [OF frozen] order sort team_at_def
        example_tie_X example_tie_Y example_tie_Z default_team_def)
qed

text \<open>
  Scroll on the level of messages. In a reachable state a frozen scroll clears the freeze
  flag and changes nothing else of the state but the order; the new order \<open>order'\<close> is a
  permutation of the old one, sorted for \<open>compare_teams\<close>, and the only such permutation.
  The messages are \<open>Info_Scroll\<close> followed by the row of each team of \<open>order'\<close>, the team at
  index \<open>i\<close> with rank \<open>i + 1\<close>. A scroll that is not frozen gives the error message alone
  and the state it was called in.
\<close>

theorem scroll_unfreezes_and_resorts:
  assumes "reachable s"
  shows "(is_frozen s \<longrightarrow>
           (\<exists>order'.
              snd (scroll s) = s\<lparr>is_frozen := False, team_order := order'\<rparr> \<and>
              mset order' = mset (team_order s) \<and>
              sorted_wrt (compare_teams s) order' \<and>
              (\<forall>ys. mset ys = mset (team_order s) \<and> sorted_wrt (compare_teams s) ys \<longrightarrow>
                    ys = order') \<and>
              fst (scroll s) =
                Info_Scroll #
                map (\<lambda>i. Scoreboard_Row (order' ! i) (i + 1)
                            (solved_problems (team_at (teams s) (order' ! i)))
                            (penalty_time (team_at (teams s) (order' ! i))))
                  [0..<length order'])) \<and>
         (\<not> is_frozen s \<longrightarrow> scroll s = ([Error_Scroll_Not_Frozen], s))"
proof (intro conjI impI)
  assume frozen: "is_frozen s"
  define order' where "order' = std_sort (compare_teams s) (team_order s)"
  have inv: "system_inv s" using assms by (rule reachable_system_inv)
  then have dom: "set (team_order s) = dom (teams s)" and dist: "distinct (team_order s)"
    and names: "\<And>tn t. teams s tn = Some t \<Longrightarrow> name t = tn"
    unfolding system_inv_def by blast+
  have total: "strict_total_on (set (team_order s)) (compare_teams s)"
    unfolding dom using inv by (rule compare_teams_strict_total_on)
  have state: "snd (scroll s) = s\<lparr>is_frozen := False, team_order := order'\<rparr>"
    by (simp add: scroll_frozen [OF frozen] order'_def)
  have perm: "mset order' = mset (team_order s)"
    by (simp add: order'_def mset_std_sort)
  have sorted: "sorted_wrt (compare_teams s) order'"
    unfolding order'_def using total dist by (rule sorted_std_sort)
  have unique: "\<forall>ys. mset ys = mset (team_order s) \<and> sorted_wrt (compare_teams s) ys \<longrightarrow>
      ys = order'"
    unfolding order'_def using std_sort_unique [OF total] by blast
  have name: "name (team_at (teams s) (order' ! i)) = order' ! i" if "i < length order'" for i
  proof -
    from that have "order' ! i \<in> set order'" by simp
    then have "order' ! i \<in> dom (teams s)"
      using dom by (simp add: order'_def set_std_sort)
    then obtain t where t: "teams s (order' ! i) = Some t" by blast
    from names [OF t] t show ?thesis by (simp add: team_at_def)
  qed
  have out: "fst (scroll s) =
      Info_Scroll #
      map (\<lambda>i. Scoreboard_Row (order' ! i) (i + 1)
                  (solved_problems (team_at (teams s) (order' ! i)))
                  (penalty_time (team_at (teams s) (order' ! i))))
        [0..<length order']"
    using name by (simp add: scroll_frozen [OF frozen] print_scoreboard_rows flip: order'_def)
  from state perm sorted unique out
  show "\<exists>order'.
      snd (scroll s) = s\<lparr>is_frozen := False, team_order := order'\<rparr> \<and>
      mset order' = mset (team_order s) \<and>
      sorted_wrt (compare_teams s) order' \<and>
      (\<forall>ys. mset ys = mset (team_order s) \<and> sorted_wrt (compare_teams s) ys \<longrightarrow>
            ys = order') \<and>
      fst (scroll s) =
        Info_Scroll #
        map (\<lambda>i. Scoreboard_Row (order' ! i) (i + 1)
                    (solved_problems (team_at (teams s) (order' ! i)))
                    (penalty_time (team_at (teams s) (order' ! i))))
          [0..<length order']"
    by blast
next
  assume "\<not> is_frozen s"
  then show "scroll s = ([Error_Scroll_Not_Frozen], s)" by (simp add: scroll_def)
qed

text \<open>
  The instance: the frozen state \<open>example_tie\<close> has the order X, Y, Z and scrolls to
  Y, X, Z; the state \<open>example_solved\<close> is not frozen and scroll fails there.
\<close>

theorem scroll_unfreezes_and_resorts_witness:
  "reachable example_tie \<and> is_frozen example_tie \<and>
   team_order example_tie = [''X'', ''Y'', ''Z''] \<and>
   team_order (snd (scroll example_tie)) = [''Y'', ''X'', ''Z''] \<and>
   \<not> is_frozen (snd (scroll example_tie)) \<and>
   fst (scroll example_tie) =
     [Info_Scroll, Scoreboard_Row ''Y'' 1 2 40, Scoreboard_Row ''X'' 2 2 40,
      Scoreboard_Row ''Z'' 3 0 0] \<and>
   reachable example_solved \<and> \<not> is_frozen example_solved \<and>
   scroll example_solved = ([Error_Scroll_Not_Frozen], example_solved)"
  using scroll_unfreezes_and_resorts [OF reachable_example_tie]
    scroll_unfreezes_and_resorts [OF reachable_example_solved]
    reachable_example_tie reachable_example_solved example_tie_order example_solved_not_frozen
  by (simp add: scroll_example_tie)

subsection \<open>The text that scroll writes\<close>

lemma show_nat_examples:
  "show_nat (Suc 0) = ''1''" "show_nat 2 = ''2''" "show_nat 3 = ''3''" "show_nat 40 = ''40''"
  "show_nat 0 = ''0''"
  by (simp_all add: show_nat.simps digit_def)

lemma digit_not_newline: "CHR 0x0A \<noteq> digit k"
proof -
  define j where "j = k mod 10"
  then have "j < 10" by simp
  then have "j \<in> {0, 1, 2, 3, 4, 5, 6, 7, 8, 9}" by auto
  then show ?thesis unfolding digit_def j_def [symmetric] by auto
qed

lemma show_nat_no_newline: "CHR 0x0A \<notin> set (show_nat n)"
proof (induction n rule: show_nat.induct)
  case (1 n)
  show ?case
  proof (cases "n < 10")
    case True
    then show ?thesis by (simp add: show_nat.simps [of n] digit_not_newline)
  next
    case False
    with 1 show ?thesis by (simp add: show_nat.simps [of n] digit_not_newline)
  qed
qed

lemma show_int_no_newline: "CHR 0x0A \<notin> set (show_int i)"
  by (simp add: show_int_def show_nat_no_newline)

lemma print_scoreboard_no_newline:
  assumes "\<And>tn. CHR 0x0A \<notin> set (name (team_at m tn))"
  shows "CHR 0x0A \<notin> set (output_text (print_scoreboard m order k))"
  using assms
  by (induction order arbitrary: k)
    (simp_all add: output_text_def Let_def terminator_def show_nat_no_newline show_int_no_newline)

lemma scroll_text_no_newline:
  assumes "\<And>tn. CHR 0x0A \<notin> set (name (team_at (teams s) tn))"
  shows "CHR 0x0A \<notin> set (output_text (fst (scroll s)))"
proof (cases "is_frozen s")
  case True
  have "CHR 0x0A \<notin> set (output_text
      (print_scoreboard (teams s) (std_sort (compare_teams s) (team_order s)) 0))"
    using assms by (rule print_scoreboard_no_newline)
  then show ?thesis
    by (simp add: scroll_frozen [OF True] output_text_def terminator_def)
next
  case False
  then show ?thesis by (simp add: scroll_def output_text_def terminator_def)
qed

text \<open>
  C3. Scroll, when the scoreboard is frozen, sets the state to unfrozen, re-sorts the
  visible order with the standings comparator, and emits one line per team in the new
  order with team name, 1-based rank, solved count and penalty; Scroll when not frozen
  fails with NotFrozen and changes no state.

  The state, the order and the values of the rows are as the claim says
  (\<open>scroll_unfreezes_and_resorts\<close> above). The rows are not lines: the source ends each
  output statement with an escaped backslash and the letter n where a line feed is
  meant, so the text that scroll writes holds no line feed at all (lemma
  \<open>scroll_text_no_newline\<close>, for team names without one). In the frozen state
  \<open>example_tie\<close> the whole output of scroll is one unterminated line.
\<close>

theorem scroll_output_has_no_newline:
  "output_text (fst (scroll example_tie)) =
     ''[Info]Scroll scoreboard.'' @ [CHR 0x5C, CHR ''n''] @
     ''Y 1 2 40'' @ [CHR 0x5C, CHR ''n''] @
     ''X 2 2 40'' @ [CHR 0x5C, CHR ''n''] @
     ''Z 3 0 0'' @ [CHR 0x5C, CHR ''n''] \<and>
   CHR 0x0A \<notin> set (output_text (fst (scroll example_tie)))"
  by (simp add: scroll_example_tie output_text_def terminator_def show_int_def show_nat_examples)

subsection \<open>Failing operations\<close>

lemma is_error_print_scoreboard: "m \<in> set (print_scoreboard tm order k) \<Longrightarrow> \<not> is_error m"
  by (induction order arbitrary: k) (auto simp: Let_def)

lemma is_error_find_ranking: "m \<in> set (find_ranking order tn r) \<Longrightarrow> \<not> is_error m"
  by (induction order arbitrary: r) (auto split: if_splits)

lemma is_error_find_submission: "\<not> is_error (find_submission subs pn st)"
  by (induction subs) (auto simp: Let_def)

lemma error_keeps_state:
  assumes "m \<in> set (fst (exec c s))" and "is_error m"
  shows "snd (exec c s) = s"
proof (cases c)
  case (START d)
  with assms show ?thesis by (auto simp: start_def)
next
  case (ADD_TEAM tn)
  with assms show ?thesis by (auto simp: add_team_def split: if_splits)
next
  case (SUBMIT tn pn st tm)
  with assms show ?thesis by (auto simp: submit_def Let_def split: option.splits)
next
  case FLUSH
  with assms show ?thesis by (auto simp: flush_scoreboard_def)
next
  case FREEZE
  with assms show ?thesis by (auto simp: freeze_def split: if_splits)
next
  case SCROLL
  with assms show ?thesis
    by (auto simp: scroll_def Let_def split: if_splits dest: is_error_print_scoreboard)
next
  case (QUERY_RANKING tn)
  with assms show ?thesis by (simp add: query_ranking_def)
next
  case (QUERY_SUBMISSION tn pn st)
  with assms show ?thesis by (simp add: query_submission_def)
next
  case END
  with assms show ?thesis by (simp add: end_competition_def)
qed

lemma example_solved_unknown: "teams example_solved ''Q'' = None"
  by (simp add: example_solved_def eval_defs)

text \<open>
  C4. Every failing operation leaves the whole system state unchanged: RegisterTeam on a
  duplicate name adds no team and does not change the visible order; Submit for an
  unregistered team changes no ledger and appends nothing to any history; Freeze when
  already frozen and Scroll when not frozen change neither the freeze flag nor the
  visible order.

  Each failure condition of the source gives the error message alone and the state it
  was called in; the same holds for the two queries on an unregistered team. The last
  conjunct is the converse: whenever a command prints an error message, the state after
  it is the state before it.
\<close>

theorem failing_operations_change_nothing:
  "(teams s tn \<noteq> None \<longrightarrow> add_team tn s = ([Error_Add_Duplicated], s)) \<and>
   (teams s tn = None \<longrightarrow> submit tn pn st tm s = ([Error_Submit_No_Team], s)) \<and>
   (is_frozen s \<longrightarrow> freeze s = ([Error_Freeze_Frozen], s)) \<and>
   (\<not> is_frozen s \<longrightarrow> scroll s = ([Error_Scroll_Not_Frozen], s)) \<and>
   (teams s tn = None \<longrightarrow> query_ranking tn s = ([Error_Query_Ranking_No_Team], s)) \<and>
   (teams s tn = None \<longrightarrow>
      query_submission tn pn st s = ([Error_Query_Submission_No_Team], s)) \<and>
   ((\<exists>m \<in> set (fst (exec c s)). is_error m) \<longrightarrow> snd (exec c s) = s)"
proof (intro conjI impI)
  assume "teams s tn \<noteq> None"
  then show "add_team tn s = ([Error_Add_Duplicated], s)" by (simp add: add_team_def)
next
  assume "teams s tn = None"
  then show "submit tn pn st tm s = ([Error_Submit_No_Team], s)" by (simp add: submit_def)
next
  assume "is_frozen s"
  then show "freeze s = ([Error_Freeze_Frozen], s)" by (simp add: freeze_def)
next
  assume "\<not> is_frozen s"
  then show "scroll s = ([Error_Scroll_Not_Frozen], s)" by (simp add: scroll_def)
next
  assume "teams s tn = None"
  then show "query_ranking tn s = ([Error_Query_Ranking_No_Team], s)"
    by (simp add: query_ranking_def)
next
  assume "teams s tn = None"
  then show "query_submission tn pn st s = ([Error_Query_Submission_No_Team], s)"
    by (simp add: query_submission_def)
next
  assume "\<exists>m \<in> set (fst (exec c s)). is_error m"
  then show "snd (exec c s) = s" using error_keeps_state by blast
qed

text \<open>
  The instance: in \<open>example_solved\<close> team A is registered, team Q is not, and the
  scoreboard is not frozen; \<open>example_tie\<close> is frozen.
\<close>

theorem failing_operations_change_nothing_witness:
  "add_team ''A'' example_solved = ([Error_Add_Duplicated], example_solved) \<and>
   submit ''Q'' ''p1'' ''Accepted'' 20 example_solved = ([Error_Submit_No_Team], example_solved) \<and>
   freeze example_tie = ([Error_Freeze_Frozen], example_tie) \<and>
   scroll example_solved = ([Error_Scroll_Not_Frozen], example_solved) \<and>
   query_ranking ''Q'' example_solved = ([Error_Query_Ranking_No_Team], example_solved) \<and>
   query_submission ''Q'' ''ALL'' ''ALL'' example_solved =
     ([Error_Query_Submission_No_Team], example_solved) \<and>
   snd (exec (ADD_TEAM ''A'') example_solved) = example_solved"
  using
    failing_operations_change_nothing
      [of example_solved "''A''" "''p1''" "''Accepted''" 20 "ADD_TEAM ''A''"]
    failing_operations_change_nothing
      [of example_solved "''Q''" "''p1''" "''Accepted''" 20 "ADD_TEAM ''A''"]
    failing_operations_change_nothing
      [of example_solved "''Q''" "''ALL''" "''ALL''" 20 "ADD_TEAM ''A''"]
    failing_operations_change_nothing
      [of example_tie "''Q''" "''ALL''" "''ALL''" 20 "ADD_TEAM ''A''"]
    example_solved_team example_solved_unknown example_solved_not_frozen example_tie_order
  by simp

subsection \<open>The visible order\<close>

lemma example_solved_order: "team_order example_solved = [''A'']"
  by (simp add: example_solved_def eval_defs)

text \<open>
  C5. The visible order (the sequence of teams that QueryRank positions and Scroll output
  are taken from) changes only as a result of Flush or Scroll; Submit, Freeze,
  RegisterTeam, QueryRank and QuerySubmission never change it.

  As stated the claim fails for RegisterTeam: a successful \<open>add_team\<close> appends the new
  name to \<open>team_order\<close>. In the initial state, registering team A changes the sequence
  from empty to the one holding A.
\<close>

theorem register_team_changes_visible_order:
  "team_order (initial 0) = [] \<and>
   team_order (snd (exec (ADD_TEAM ''A'') (initial 0))) = [''A''] \<and>
   team_order (snd (exec (ADD_TEAM ''A'') (initial 0))) \<noteq> team_order (initial 0)"
  by (simp add: initial_def add_team_def)

text \<open>
  C5, amended. Submit, Freeze, QueryRank and QuerySubmission never change the visible
  order, and neither do the start and end commands. RegisterTeam never reorders it: on a
  duplicate name it leaves the sequence unchanged, and on a new name it appends that name
  at the end, so that every team already in the sequence keeps its position. Flush and
  Scroll permute the sequence.
\<close>

theorem visible_order_frame:
  "team_order (snd (submit tn pn st tm s)) = team_order s \<and>
   team_order (snd (freeze s)) = team_order s \<and>
   team_order (snd (query_ranking tn s)) = team_order s \<and>
   team_order (snd (query_submission tn pn st s)) = team_order s \<and>
   team_order (snd (start d s)) = team_order s \<and>
   team_order (snd (end_competition s)) = team_order s \<and>
   (teams s tn \<noteq> None \<longrightarrow> team_order (snd (add_team tn s)) = team_order s) \<and>
   (teams s tn = None \<longrightarrow> team_order (snd (add_team tn s)) = team_order s @ [tn]) \<and>
   (\<forall>i < length (team_order s). team_order (snd (add_team tn s)) ! i = team_order s ! i) \<and>
   mset (team_order (snd (flush_scoreboard s))) = mset (team_order s) \<and>
   mset (team_order (snd (scroll s))) = mset (team_order s)"
proof (intro conjI impI allI)
  show "team_order (snd (submit tn pn st tm s)) = team_order s"
    by (simp add: submit_def Let_def split: option.splits)
  show "team_order (snd (freeze s)) = team_order s"
    by (simp add: freeze_def)
  show "team_order (snd (query_ranking tn s)) = team_order s"
    by (simp add: query_ranking_def)
  show "team_order (snd (query_submission tn pn st s)) = team_order s"
    by (simp add: query_submission_def)
  show "team_order (snd (start d s)) = team_order s"
    by (simp add: start_def)
  show "team_order (snd (end_competition s)) = team_order s"
    by (simp add: end_competition_def)
  show "team_order (snd (add_team tn s)) = team_order s" if "teams s tn \<noteq> None"
    using that by (simp add: add_team_def)
  show "team_order (snd (add_team tn s)) = team_order s @ [tn]" if "teams s tn = None"
    using that by (simp add: add_team_def)
  show "team_order (snd (add_team tn s)) ! i = team_order s ! i"
    if "i < length (team_order s)" for i
    using that by (simp add: add_team_def nth_append)
  show "mset (team_order (snd (flush_scoreboard s))) = mset (team_order s)"
    by (simp add: flush_scoreboard_def update_scoreboard_def mset_std_sort)
  show "mset (team_order (snd (scroll s))) = mset (team_order s)"
    by (simp add: scroll_def update_scoreboard_def Let_def mset_std_sort)
qed

text \<open>
  The instance: in \<open>example_solved\<close> the order holds A alone; registering A again or a
  submission leaves it so, registering Q appends Q.
\<close>

theorem visible_order_frame_witness:
  "team_order example_solved = [''A''] \<and>
   team_order (snd (add_team ''A'' example_solved)) = [''A''] \<and>
   team_order (snd (add_team ''Q'' example_solved)) = [''A'', ''Q''] \<and>
   team_order (snd (submit ''A'' ''p2'' ''Accepted'' 20 example_solved)) = [''A'']"
  using visible_order_frame [of "''A''" "''p2''" "''Accepted''" 20 example_solved 0]
    visible_order_frame [of "''Q''" "''p2''" "''Accepted''" 20 example_solved 0]
    example_solved_team example_solved_unknown example_solved_order
  by simp

subsection \<open>Rejected submissions\<close>

text \<open>
  C6. For every submission whose outcome is not "Accepted", the wrong-submission counter
  for that (team, problem) pair increments by exactly 1, also when the team has already
  solved the problem; such a rejection after the solve never changes the team's solved
  count, penalty or solve times.

  Stated on \<open>submit\<close> for a registered team in any state, whether the problem is solved
  or not: the counter of the problem goes up by one, the counters of the other problems,
  the solved count, the penalty, the solve times and the first-acceptance times stay.
\<close>

theorem rejected_submission_counts:
  assumes "teams s tn = Some t" and "st \<noteq> ''Accepted''"
  shows "\<exists>t'. teams (snd (submit tn pn st tm s)) tn = Some t' \<and>
     count_at (wrong_submissions t') pn = count_at (wrong_submissions t) pn + 1 \<and>
     (\<forall>q. q \<noteq> pn \<longrightarrow> count_at (wrong_submissions t') q = count_at (wrong_submissions t) q) \<and>
     solved_problems t' = solved_problems t \<and>
     penalty_time t' = penalty_time t \<and>
     solve_times t' = solve_times t \<and>
     first_ac_time t' = first_ac_time t"
proof -
  define sub where "sub = \<lparr>team_name = tn, problem_name = pn, status = st, time = tm\<rparr>"
  have "status sub \<noteq> ''Accepted''" using assms(2) by (simp add: sub_def)
  from update_rejected [OF this, of t]
  have upd: "update_team_stats t sub =
      t\<lparr>submissions := submissions t @ [sub],
        wrong_submissions :=
          (wrong_submissions t)(pn \<mapsto> count_at (wrong_submissions t) pn + 1)\<rparr>"
    by (simp add: sub_def)
  have "teams (snd (submit tn pn st tm s)) tn = Some (update_team_stats t sub)"
    using assms(1) by (simp add: submit_registered sub_def)
  then show ?thesis
    unfolding upd by (simp add: count_at_upd)
qed

text \<open>
  The instance: in \<open>example_solved\<close> team A has solved p1 with one wrong submission; a
  further wrong answer moves the counter from 1 to 2 and nothing else.
\<close>

theorem rejected_submission_counts_witness:
  "teams example_solved ''A'' \<noteq> None \<and>
   count_at (wrong_submissions (team_at (teams example_solved) ''A'')) ''p1'' = 1 \<and>
   (\<exists>t'. teams (snd (submit ''A'' ''p1'' ''Wrong_Answer'' 40 example_solved)) ''A'' = Some t' \<and>
      count_at (wrong_submissions t') ''p1'' = 2 \<and>
      solved_problems t' = 1 \<and> penalty_time t' = 35 \<and> solve_times t' = [15])"
  using rejected_submission_counts [OF example_solved_team, of "''Wrong_Answer''" "''p1''" 40]
  by (auto simp add: example_solved_team team_at_def count_at_def)

subsection \<open>The submission query\<close>

lemma find_submission_rev:
  "find_submission (rev subs) pn st =
     (if filter (matches_filters pn st) subs = [] then Cannot_Find_Submission
      else submission_row (last (filter (matches_filters pn st) subs)))"
proof (induction subs rule: rev_induct)
  case Nil
  then show ?case by simp
next
  case (snoc x xs)
  show ?case
  proof (cases "matches_filters pn st x")
    case True
    then show ?thesis by (simp add: matches_filters_def submission_row_def Let_def)
  next
    case False
    then have "find_submission (rev (xs @ [x])) pn st = find_submission (rev xs) pn st"
      by (auto simp add: matches_filters_def Let_def)
    with False snoc.IH show ?thesis by simp
  qed
qed

lemma last_filter_index:
  "filter P xs \<noteq> [] \<Longrightarrow>
   \<exists>i < length xs. xs ! i = last (filter P xs) \<and> P (xs ! i) \<and>
     (\<forall>j < length xs. i < j \<longrightarrow> \<not> P (xs ! j))"
proof (induction xs rule: rev_induct)
  case Nil
  then show ?case by simp
next
  case (snoc x xs)
  show ?case
  proof (cases "P x")
    case True
    then show ?thesis by (intro exI [of _ "length xs"]) simp
  next
    case False
    with snoc.prems have "filter P xs \<noteq> []" by simp
    from snoc.IH [OF this] obtain i where i: "i < length xs" "xs ! i = last (filter P xs)"
      "P (xs ! i)" "\<forall>j < length xs. i < j \<longrightarrow> \<not> P (xs ! j)" by blast
    have "\<forall>j < length (xs @ [x]). i < j \<longrightarrow> \<not> P ((xs @ [x]) ! j)"
    proof (intro allI impI)
      fix j assume "j < length (xs @ [x])" and "i < j"
      with i(4) False show "\<not> P ((xs @ [x]) ! j)"
        by (cases "j < length xs") (simp_all add: nth_append)
    qed
    with i False show ?thesis
      by (intro exI [of _ i]) (simp add: nth_append)
  qed
qed

text \<open>
  C7. QuerySubmission for a registered team scans that team's submission history from the
  most recently received entry to the oldest and returns the first entry whose problem
  matches the problem filter ("ALL" matches every problem) and whose status matches the
  status filter ("ALL" matches every status), or reports that there is no match; its
  result is the same whether the scoreboard is frozen or not; for an unregistered team it
  fails with UnknownTeam.

  The history \<open>submissions t\<close> is in the order of receipt (lemma
  \<open>history_is_log_of_team\<close>), and \<open>hits\<close> are its entries that
  match both filters, in that order: the query prints the last of them, which stands at an
  index \<open>i\<close> of the history after which no entry matches. Setting the freeze flag to any
  value \<open>b\<close> changes neither the output nor what the query does to the state.
\<close>

theorem query_submission_most_recent_match:
  "(teams s tn = Some t \<longrightarrow>
      (let hits = filter (matches_filters pn st) (submissions t) in
         query_submission tn pn st s =
           ([Info_Complete_Query_Submission,
             if hits = [] then Cannot_Find_Submission else submission_row (last hits)], s) \<and>
         (hits \<noteq> [] \<longrightarrow>
            (\<exists>i < length (submissions t).
               submissions t ! i = last hits \<and>
               matches_filters pn st (submissions t ! i) \<and>
               (\<forall>j < length (submissions t). i < j \<longrightarrow>
                  \<not> matches_filters pn st (submissions t ! j))))) \<and>
      query_submission tn pn st (s\<lparr>is_frozen := b\<rparr>) =
        (fst (query_submission tn pn st s), s\<lparr>is_frozen := b\<rparr>)) \<and>
   (teams s tn = None \<longrightarrow>
      query_submission tn pn st s = ([Error_Query_Submission_No_Team], s))"
proof (intro conjI impI)
  assume t: "teams s tn = Some t"
  have out: "query_submission tn pn st s =
      ([Info_Complete_Query_Submission,
        if filter (matches_filters pn st) (submissions t) = [] then Cannot_Find_Submission
        else submission_row (last (filter (matches_filters pn st) (submissions t)))], s)"
    using t by (simp add: query_submission_def team_at_def find_submission_rev)
  with last_filter_index [of "matches_filters pn st" "submissions t"]
  show "let hits = filter (matches_filters pn st) (submissions t) in
      query_submission tn pn st s =
        ([Info_Complete_Query_Submission,
          if hits = [] then Cannot_Find_Submission else submission_row (last hits)], s) \<and>
      (hits \<noteq> [] \<longrightarrow>
         (\<exists>i < length (submissions t).
            submissions t ! i = last hits \<and>
            matches_filters pn st (submissions t ! i) \<and>
            (\<forall>j < length (submissions t). i < j \<longrightarrow>
               \<not> matches_filters pn st (submissions t ! j))))"
    unfolding Let_def by blast
  show "query_submission tn pn st (s\<lparr>is_frozen := b\<rparr>) =
      (fst (query_submission tn pn st s), s\<lparr>is_frozen := b\<rparr>)"
    by (simp add: query_submission_def)
next
  assume "teams s tn = None"
  then show "query_submission tn pn st s = ([Error_Query_Submission_No_Team], s)"
    by (simp add: query_submission_def)
qed

text \<open>
  The instance: team A of \<open>example_solved\<close> has a wrong answer at time 5 followed by an
  acceptance at time 15, both for p1.
\<close>

theorem query_submission_most_recent_match_witness:
  "query_submission ''A'' ''ALL'' ''ALL'' example_solved =
     ([Info_Complete_Query_Submission, Submission_Row ''A'' ''p1'' ''Accepted'' 15],
      example_solved) \<and>
   query_submission ''A'' ''p1'' ''Wrong_Answer'' example_solved =
     ([Info_Complete_Query_Submission, Submission_Row ''A'' ''p1'' ''Wrong_Answer'' 5],
      example_solved) \<and>
   query_submission ''A'' ''p2'' ''ALL'' example_solved =
     ([Info_Complete_Query_Submission, Cannot_Find_Submission], example_solved) \<and>
   query_submission ''Q'' ''ALL'' ''ALL'' example_solved =
     ([Error_Query_Submission_No_Team], example_solved)"
  using
    query_submission_most_recent_match
      [of example_solved "''A''" "the (teams example_solved ''A'')" "''ALL''" "''ALL''" True]
    query_submission_most_recent_match
      [of example_solved "''A''" "the (teams example_solved ''A'')" "''p1''" "''Wrong_Answer''" True]
    query_submission_most_recent_match
      [of example_solved "''A''" "the (teams example_solved ''A'')" "''p2''" "''ALL''" True]
    query_submission_most_recent_match
      [of example_solved "''Q''" default_team "''ALL''" "''ALL''" True]
    example_solved_team example_solved_unknown
  by (simp add: matches_filters_def submission_row_def Let_def)

subsection \<open>The rank query\<close>

lemma find_ranking_first:
  "tn \<in> set order \<Longrightarrow>
   \<exists>i < length order. order ! i = tn \<and> (\<forall>j < i. order ! j \<noteq> tn) \<and>
     find_ranking order tn r = [Now_At_Ranking tn (r + int i)]"
proof (induction order arbitrary: r)
  case Nil
  then show ?case by simp
next
  case (Cons team order)
  show ?case
  proof (cases "team = tn")
    case True
    then show ?thesis by (intro exI [of _ 0]) simp
  next
    case False
    with Cons.prems have "tn \<in> set order" by simp
    from Cons.IH [OF this, of "r + 1"] obtain i where i: "i < length order" "order ! i = tn"
      "\<forall>j < i. order ! j \<noteq> tn" "find_ranking order tn (r + 1) = [Now_At_Ranking tn (r + 1 + int i)]"
      by blast
    have "\<forall>j < Suc i. (team # order) ! j \<noteq> tn"
      using i(3) False by (auto simp: nth_Cons split: nat.splits)
    with i False show ?thesis
      by (intro exI [of _ "Suc i"]) simp
  qed
qed

lemma example_tie_unknown: "teams example_tie ''Q'' = None"
  by (simp add: example_tie_def eval_defs)

text \<open>
  C8. QueryRank for a registered team returns that team's 1-based position in the current
  visible order; if and only if the scoreboard is frozen it also emits a staleness
  warning, and the warning never suppresses the rank; for an unregistered team it fails
  with UnknownTeam; the query changes no state.

  Stated for a reachable state: the registered team stands at exactly one index \<open>i\<close> of
  \<open>team_order\<close>, and the query prints the rank \<open>i + 1\<close>, after the warning when the
  scoreboard is frozen and alone when it is not.
\<close>

theorem query_ranking_position:
  assumes "reachable s"
  shows "(teams s tn \<noteq> None \<longrightarrow>
           (\<exists>i < length (team_order s).
              team_order s ! i = tn \<and>
              (\<forall>j < length (team_order s). team_order s ! j = tn \<longrightarrow> j = i) \<and>
              query_ranking tn s =
                ((if is_frozen s then [Warning_Frozen] else []) @ [Now_At_Ranking tn (int i + 1)],
                 s))) \<and>
         (teams s tn = None \<longrightarrow> query_ranking tn s = ([Error_Query_Ranking_No_Team], s))"
proof (intro conjI impI)
  assume reg: "teams s tn \<noteq> None"
  have inv: "system_inv s" using assms by (rule reachable_system_inv)
  then have dom: "set (team_order s) = dom (teams s)" and dist: "distinct (team_order s)"
    unfolding system_inv_def by blast+
  from reg dom have "tn \<in> set (team_order s)" by auto
  from find_ranking_first [OF this, of 1] obtain i where i: "i < length (team_order s)"
    "team_order s ! i = tn" "find_ranking (team_order s) tn 1 = [Now_At_Ranking tn (1 + int i)]"
    by blast
  have "\<forall>j < length (team_order s). team_order s ! j = tn \<longrightarrow> j = i"
    using dist i(1,2) by (auto simp: nth_eq_iff_index_eq)
  moreover have "query_ranking tn s =
      ((if is_frozen s then [Warning_Frozen] else []) @ [Now_At_Ranking tn (int i + 1)], s)"
    using reg i(3) by (simp add: query_ranking_def add.commute)
  ultimately show "\<exists>i < length (team_order s).
      team_order s ! i = tn \<and>
      (\<forall>j < length (team_order s). team_order s ! j = tn \<longrightarrow> j = i) \<and>
      query_ranking tn s =
        ((if is_frozen s then [Warning_Frozen] else []) @ [Now_At_Ranking tn (int i + 1)], s)"
    using i(1,2) by blast
next
  assume "teams s tn = None"
  then show "query_ranking tn s = ([Error_Query_Ranking_No_Team], s)"
    by (simp add: query_ranking_def)
qed

text \<open>
  The instance: in the frozen state \<open>example_tie\<close> team Y is second of X, Y, Z; in
  \<open>example_solved\<close>, which is not frozen, team A is first.
\<close>

theorem query_ranking_position_witness:
  "reachable example_tie \<and> team_order example_tie = [''X'', ''Y'', ''Z''] \<and>
   is_frozen example_tie \<and>
   query_ranking ''Y'' example_tie = ([Warning_Frozen, Now_At_Ranking ''Y'' 2], example_tie) \<and>
   query_ranking ''Q'' example_tie = ([Error_Query_Ranking_No_Team], example_tie) \<and>
   reachable example_solved \<and> \<not> is_frozen example_solved \<and>
   query_ranking ''A'' example_solved = ([Now_At_Ranking ''A'' 1], example_solved)"
proof -
  have "query_ranking ''Y'' example_tie =
      ([Warning_Frozen, Now_At_Ranking ''Y'' 2], example_tie)"
    by (simp add: query_ranking_def example_tie_order example_tie_Y)
  with query_ranking_position [OF reachable_example_tie, of "''Y''"]
    query_ranking_position [OF reachable_example_tie, of "''Q''"]
    query_ranking_position [OF reachable_example_solved, of "''A''"]
    reachable_example_tie reachable_example_solved example_tie_order
    example_tie_unknown example_solved_team example_solved_not_frozen example_solved_order
  show ?thesis by simp
qed

subsection \<open>The ledger over a run\<close>

lemma update_team_stats_monotone:
  assumes "ledger_inv t"
  shows "solved_problems t \<le> solved_problems (update_team_stats t sub) \<and>
         (\<forall>pn v. first_ac_time t pn = Some v \<longrightarrow>
                  first_ac_time (update_team_stats t sub) pn = Some v) \<and>
         (0 \<le> time sub \<and>
          (status sub = ''Accepted'' \<and> first_ac_time t (problem_name sub) = None \<longrightarrow>
             int32 (penalty_time t +
               (20 * count_at (wrong_submissions t) (problem_name sub) + time sub))) \<longrightarrow>
          penalty_time t \<le> penalty_time (update_team_stats t sub))"
proof (cases "status sub = ''Accepted''")
  case st: True
  show ?thesis
  proof (cases "first_ac_time t (problem_name sub) = None")
    case True
    from assms have "0 \<le> count_at (wrong_submissions t) (problem_name sub)"
      unfolding ledger_inv_def by simp
    with True st show ?thesis
      unfolding update_first_accepted [OF st True] by (auto simp add: wrap32_in_range)
  next
    case False
    show ?thesis unfolding update_later_accepted [OF st False] by simp
  qed
next
  case False
  show ?thesis unfolding update_rejected [OF False] by simp
qed

lemma exec_ledger_monotone:
  assumes "system_inv s" and "teams s tn = Some t"
  shows "\<exists>t'. teams (snd (exec c s)) tn = Some t' \<and>
     solved_problems t \<le> solved_problems t' \<and>
     (\<forall>pn v. first_ac_time t pn = Some v \<longrightarrow> first_ac_time t' pn = Some v) \<and>
     (submit_time_nonneg c \<and> penalty_step_in_range c s \<longrightarrow>
        penalty_time t \<le> penalty_time t')"
proof (cases c)
  case (START d)
  with assms(2) show ?thesis by (simp add: start_def)
next
  case (ADD_TEAM a)
  with assms(2) show ?thesis by (auto simp add: add_team_def)
next
  case (SUBMIT a pn st tm)
  show ?thesis
  proof (cases "teams s a")
    case None
    with assms(2) SUBMIT show ?thesis by (simp add: submit_def)
  next
    case (Some u)
    show ?thesis
    proof (cases "a = tn")
      case True
      with Some assms(2) have u: "u = t" by simp
      have inv: "ledger_inv t" using assms unfolding system_inv_def by blast
      from update_team_stats_monotone
        [OF inv, of "\<lparr>team_name = a, problem_name = pn, status = st, time = tm\<rparr>"]
      show ?thesis
        using Some u True SUBMIT by (simp add: submit_registered)
    next
      case False
      with Some assms(2) SUBMIT show ?thesis by (simp add: submit_registered)
    qed
  qed
next
  case FLUSH
  with assms(2) show ?thesis by (simp add: flush_scoreboard_def update_scoreboard_def)
next
  case FREEZE
  with assms(2) show ?thesis by (simp add: freeze_def)
next
  case SCROLL
  with assms(2) show ?thesis by (simp add: scroll_def update_scoreboard_def Let_def)
next
  case (QUERY_RANKING a)
  with assms(2) show ?thesis by (simp add: query_ranking_def)
next
  case (QUERY_SUBMISSION a pn st)
  with assms(2) show ?thesis by (simp add: query_submission_def)
next
  case END
  with assms(2) show ?thesis by (simp add: end_competition_def)
qed

lemma run_ledger_monotone:
  assumes "system_inv s" and "teams s tn = Some t"
  shows "\<exists>t'. teams (snd (run cs s)) tn = Some t' \<and>
     solved_problems t \<le> solved_problems t' \<and>
     (\<forall>pn v. first_ac_time t pn = Some v \<longrightarrow> first_ac_time t' pn = Some v) \<and>
     (list_all submit_time_nonneg cs \<and> penalty_in_range cs s \<longrightarrow>
        penalty_time t \<le> penalty_time t')"
  using assms
proof (induction cs arbitrary: s t)
  case Nil
  then show ?case by simp
next
  case (Cons c cs)
  from exec_ledger_monotone [OF Cons.prems, of c] obtain t1 where
    t1: "teams (snd (exec c s)) tn = Some t1" "solved_problems t \<le> solved_problems t1"
      "\<forall>pn v. first_ac_time t pn = Some v \<longrightarrow> first_ac_time t1 pn = Some v"
      "submit_time_nonneg c \<and> penalty_step_in_range c s \<longrightarrow>
         penalty_time t \<le> penalty_time t1"
    by blast
  show ?case
  proof (cases "c = END")
    case True
    with t1 show ?thesis by (simp add: case_prod_unfold)
  next
    case False
    have inv1: "system_inv (snd (exec c s))" using Cons.prems(1) by (rule system_inv_exec)
    from Cons.IH [OF inv1 t1(1)] obtain t2 where
      t2: "teams (snd (run cs (snd (exec c s)))) tn = Some t2"
        "solved_problems t1 \<le> solved_problems t2"
        "\<forall>pn v. first_ac_time t1 pn = Some v \<longrightarrow> first_ac_time t2 pn = Some v"
        "list_all submit_time_nonneg cs \<and> penalty_in_range cs (snd (exec c s)) \<longrightarrow>
           penalty_time t1 \<le> penalty_time t2"
      by blast
    have run: "snd (run (c # cs) s) = snd (run cs (snd (exec c s)))"
      using False by (simp add: case_prod_unfold Let_def)
    from t1 t2 False show ?thesis unfolding run by auto
  qed
qed

lemma reachable_example_max_time:
  "reachable (snd (run [ADD_TEAM ''A'', SUBMIT ''A'' ''p1'' ''Accepted'' 2147483647] (initial 0)))"
  by (rule reachable_run) (rule reachable_initial)

text \<open>
  C9. In every state reachable by any command sequence, every team's ledger satisfies:
  the solved count equals the number of entries of the first-acceptance-time map and the
  number of solve times; the solve times are in descending order; each problem's
  first-acceptance time is written at most once; and solved count and total penalty never
  decrease across any operation.

  As stated the claim fails for the penalty, which is a 32-bit \<open>int\<close>: a first acceptance
  whose penalty takes the total beyond the largest \<open>int\<close> wraps it around. After
  \<open>ADD_TEAM A\<close> and \<open>SUBMIT A p1 Accepted 2147483647\<close> the penalty of A is 2147483647; the
  command \<open>SUBMIT A p2 Accepted 2147483647\<close>, whose time is not negative and not smaller
  than the one before, takes it to -2.
\<close>

theorem penalty_overflow_lowers_penalty:
  "reachable (snd (run [ADD_TEAM ''A'', SUBMIT ''A'' ''p1'' ''Accepted'' 2147483647] (initial 0))) \<and>
   receivable (SUBMIT ''A'' ''p2'' ''Accepted'' 2147483647) \<and>
   submit_time_nonneg (SUBMIT ''A'' ''p2'' ''Accepted'' 2147483647) \<and>
   penalty_time (team_at (teams
     (snd (run [ADD_TEAM ''A'', SUBMIT ''A'' ''p1'' ''Accepted'' 2147483647] (initial 0)))) ''A'') =
     2147483647 \<and>
   penalty_time (team_at (teams (snd (exec (SUBMIT ''A'' ''p2'' ''Accepted'' 2147483647)
     (snd (run [ADD_TEAM ''A'', SUBMIT ''A'' ''p1'' ''Accepted'' 2147483647] (initial 0)))))) ''A'') =
     - 2"
  using reachable_example_max_time by (simp add: eval_defs int32_def)

text \<open>
  C9, amended. In every reachable state every team's ledger satisfies: the solved count
  equals the number of entries of the first-acceptance-time map and the number of solve
  times, and the solve times are in descending order. Over any further commands \<open>cs\<close> the
  team stays registered, its solved count does not decrease, a first-acceptance time once
  recorded keeps its value, and its total penalty does not decrease provided that the
  submission times of \<open>cs\<close> are not negative, as the caller's contract has it, and that no
  penalty sum of \<open>cs\<close> leaves the range of a 32-bit \<open>int\<close>.
\<close>

theorem ledger_invariants:
  assumes "reachable s" and "teams s tn = Some t"
  shows "finite (dom (first_ac_time t)) \<and>
     solved_problems t = int (card (dom (first_ac_time t))) \<and>
     solved_problems t = int (length (solve_times t)) \<and>
     descending (solve_times t) \<and>
     (\<exists>t'. teams (snd (run cs s)) tn = Some t' \<and>
        solved_problems t \<le> solved_problems t' \<and>
        (\<forall>pn v. first_ac_time t pn = Some v \<longrightarrow> first_ac_time t' pn = Some v) \<and>
        (list_all submit_time_nonneg cs \<and> penalty_in_range cs s \<longrightarrow>
           penalty_time t \<le> penalty_time t'))"
proof -
  have inv: "system_inv s" using assms(1) by (rule reachable_system_inv)
  have "ledger_inv t" using assms by (rule reachable_ledger_inv)
  then have "finite (dom (first_ac_time t))"
    and "solved_problems t = int (card (dom (first_ac_time t)))"
    and "solved_problems t = int (length (solve_times t))"
    and "descending (solve_times t)"
    unfolding ledger_inv_def by blast+
  with run_ledger_monotone [OF inv assms(2), of cs] show ?thesis by blast
qed

text \<open>
  The instance: from \<open>example_one_wrong\<close>, where team A has solved nothing, an acceptance
  at time 15 takes the solved count from 0 to 1 and the penalty from 0 to 35; the time is
  not negative and the sum \<open>0 + (20 * 1 + 15)\<close> is in the range of \<open>int\<close>.
\<close>

theorem ledger_invariants_witness:
  "reachable example_one_wrong \<and>
   (\<exists>t. teams example_one_wrong ''A'' = Some t \<and> solved_problems t = 0 \<and> penalty_time t = 0) \<and>
   list_all submit_time_nonneg [SUBMIT ''A'' ''p1'' ''Accepted'' 15] \<and>
   penalty_in_range [SUBMIT ''A'' ''p1'' ''Accepted'' 15] example_one_wrong \<and>
   (\<exists>t'. teams (snd (run [SUBMIT ''A'' ''p1'' ''Accepted'' 15] example_one_wrong)) ''A'' = Some t' \<and>
      solved_problems t' = 1 \<and> penalty_time t' = 35 \<and> solve_times t' = [15] \<and>
      first_ac_time t' ''p1'' = Some 15)"
  using ledger_invariants [OF reachable_example_one_wrong example_one_wrong_team,
      of "[SUBMIT ''A'' ''p1'' ''Accepted'' 15]"]
    reachable_example_one_wrong
  by (simp add: example_one_wrong_team submit_registered update_team_stats_def Let_def
      count_at_def sort_reversed_def wrap32_def int32_def)

subsection \<open>The visible order and the registered teams\<close>

lemma row_team_print_scoreboard:
  assumes "\<And>tn. tn \<in> set order \<Longrightarrow> name (team_at m tn) = tn"
  shows "map row_team (print_scoreboard m order k) = map Some order"
  using assms by (induction order arbitrary: k) (simp_all add: Let_def)

text \<open>
  C10. In every reachable state the visible-order sequence contains exactly the registered
  team names, each exactly once; so QueryRank for a registered team always finds it and
  returns a rank between 1 and the number of registered teams, and the standings that
  Scroll prints list every registered team exactly once.

  Stated for a reachable state. The messages that \<open>scroll\<close> prints after its first
  line are the rows of the teams of a sequence \<open>order'\<close> without repetition whose elements
  are the registered teams.
\<close>

theorem order_lists_registered_teams:
  assumes "reachable s"
  shows "set (team_order s) = dom (teams s) \<and> distinct (team_order s) \<and>
     length (team_order s) = card (dom (teams s)) \<and>
     (teams s tn \<noteq> None \<longrightarrow>
        (\<exists>r. fst (query_ranking tn s) =
                (if is_frozen s then [Warning_Frozen] else []) @ [Now_At_Ranking tn r] \<and>
              1 \<le> r \<and> r \<le> int (card (dom (teams s))))) \<and>
     (is_frozen s \<longrightarrow>
        (\<exists>order'. map row_team (fst (scroll s)) = None # map Some order' \<and>
           distinct order' \<and> set order' = dom (teams s)))"
proof -
  have inv: "system_inv s" using assms by (rule reachable_system_inv)
  then have dom: "set (team_order s) = dom (teams s)" and dist: "distinct (team_order s)"
    and names: "\<And>tn t. teams s tn = Some t \<Longrightarrow> name t = tn"
    unfolding system_inv_def by blast+
  have len: "length (team_order s) = card (dom (teams s))"
    using distinct_card [OF dist] dom by simp
  have rank: "\<exists>r. fst (query_ranking tn s) =
        (if is_frozen s then [Warning_Frozen] else []) @ [Now_At_Ranking tn r] \<and>
      1 \<le> r \<and> r \<le> int (card (dom (teams s)))"
    if reg: "teams s tn \<noteq> None"
  proof -
    from reg dom have "tn \<in> set (team_order s)" by auto
    from find_ranking_first [OF this, of 1] obtain i where i: "i < length (team_order s)"
      "find_ranking (team_order s) tn 1 = [Now_At_Ranking tn (1 + int i)]"
      by blast
    from reg i(2) have "fst (query_ranking tn s) =
        (if is_frozen s then [Warning_Frozen] else []) @ [Now_At_Ranking tn (1 + int i)]"
      by (auto simp add: query_ranking_def)
    moreover from i(1) len have "1 \<le> 1 + int i" and "1 + int i \<le> int (card (dom (teams s)))"
      by simp_all
    ultimately show ?thesis by blast
  qed
  have rows: "\<exists>order'. map row_team (fst (scroll s)) = None # map Some order' \<and>
      distinct order' \<and> set order' = dom (teams s)"
    if frozen: "is_frozen s"
  proof -
    define order' where "order' = std_sort (compare_teams s) (team_order s)"
    have set': "set order' = dom (teams s)" and dist': "distinct order'"
      using dom dist by (simp_all add: order'_def set_std_sort distinct_std_sort)
    have "name (team_at (teams s) a) = a" if "a \<in> set order'" for a
    proof -
      from that set' obtain t where t: "teams s a = Some t" by blast
      from names [OF t] t show ?thesis by (simp add: team_at_def)
    qed
    then have "map row_team (print_scoreboard (teams s) order' 0) = map Some order'"
      by (rule row_team_print_scoreboard)
    then have "map row_team (fst (scroll s)) = None # map Some order'"
      by (simp add: scroll_frozen [OF frozen] order'_def)
    with set' dist' show ?thesis by (intro exI [of _ order']) simp
  qed
  from dom dist len rank rows show ?thesis by simp
qed

text \<open>
  The instance: in \<open>example_tie\<close> the three teams X, Y, Z are registered; Z has rank 3,
  and scroll prints one row for each of Y, X, Z.
\<close>

theorem order_lists_registered_teams_witness:
  "reachable example_tie \<and> team_order example_tie = [''X'', ''Y'', ''Z''] \<and>
   is_frozen example_tie \<and> teams example_tie ''Z'' \<noteq> None \<and>
   fst (query_ranking ''Z'' example_tie) = [Warning_Frozen, Now_At_Ranking ''Z'' 3] \<and>
   map row_team (fst (scroll example_tie)) = [None, Some ''Y'', Some ''X'', Some ''Z'']"
proof -
  have "query_ranking ''Z'' example_tie =
      ([Warning_Frozen, Now_At_Ranking ''Z'' 3], example_tie)"
    by (simp add: query_ranking_def example_tie_order example_tie_Z)
  with order_lists_registered_teams [OF reachable_example_tie, of "''Z''"]
    reachable_example_tie example_tie_order example_tie_Z
  show ?thesis by (simp add: scroll_example_tie)
qed

end
